theory Spec2Isabelle
  imports Main "HOL-Library.Word"
begin

section \<open>Constants and buffers of main\_new.c\<close>

text \<open>
  Bytes are 8-bit words, the \<open>len\<close> field of a buffer is a \<open>uint16_t\<close> and \<open>size_t\<close>
  is the 32-bit unsigned type of the target (an ARM Cortex-M).
\<close>

type_synonym byte = "8 word"
type_synonym u16 = "16 word"
type_synonym size_t = "32 word"

definition UART_BUF_SIZE :: nat where
  "UART_BUF_SIZE = 20"

definition NUS_WRITE_TIMEOUT :: nat where
  "NUS_WRITE_TIMEOUT = 150"

definition UART_WAIT_FOR_BUF_DELAY :: nat where
  "UART_WAIT_FOR_BUF_DELAY = 50"

definition UART_RX_TIMEOUT :: nat where
  "UART_RX_TIMEOUT = 50"

definition ROUTED_MESSAGE_CHAR :: byte where
  "ROUTED_MESSAGE_CHAR = 42"

definition BROADCAST_INDEX :: int where
  "BROADCAST_INDEX = 99"

definition CR :: byte where
  "CR = 13"

definition LF :: byte where
  "LF = 10"

text \<open>
  \<open>struct uart_data_t\<close>: the \<open>data\<close> array always has \<open>UART_BUF_SIZE\<close> bytes, of which
  the first \<open>len\<close> are the frame; the bytes behind them are whatever the memory held.
\<close>

record uart_data_t =
  data :: "byte list"
  len :: u16

definition wf_buf :: "uart_data_t \<Rightarrow> bool" where
  "wf_buf b \<longleftrightarrow> length (data b) = UART_BUF_SIZE \<and> unat (len b) \<le> UART_BUF_SIZE"

definition frame :: "uart_data_t \<Rightarrow> byte list" where
  "frame b = take (unat (len b)) (data b)"

section \<open>The calls the program makes\<close>

text \<open>
  Every call into the kernel, the UART driver and the Bluetooth stack is recorded, in
  program order, with the arguments the code passes. A pointer into the \<open>data\<close> array
  of a buffer is the buffer's address and an offset; \<open>None\<close> is the null pointer.
  \<open>BtNusClientSend c moff mlen r\<close> is \<open>bt_nus_client_send\<close> for the client \<open>c\<close> with
  the message pointer \<open>&buf->data[moff]\<close>, the length \<open>mlen\<close> and the value \<open>r\<close> it
  returned; \<open>BtNusClientSendMsg\<close> is the same call on a local array, given by its bytes.
  \<open>KSemTake t r\<close> is \<open>k_sem_take(&nus_write_sem, K_MSEC(t))\<close> returning \<open>r\<close>, and
  \<open>UartTx p n bs\<close> is \<open>uart_tx\<close> of the \<open>n\<close> bytes \<open>bs\<close> found at \<open>p\<close>.
\<close>

datatype byte_ptr = BytePtr (blk: nat) (off: nat)

datatype call =
    LOG_WRN string
  | LOG_INF string
  | LOG_ERR string
  | BtNusClientSend nat nat u16 int
  | BtNusClientSendMsg nat "byte list" int
  | BtConnCtxRelease "nat option"
  | KSemTake nat int
  | KSemGive
  | KMalloc "nat option"
  | KFree nat
  | KFifoPutTx nat
  | KFifoPutRx nat
  | UartTx byte_ptr size_t "byte list"
  | UartRxEnable nat nat nat
  | UartRxDisable
  | UartRxBufRsp nat nat
  | KDelayedWorkSubmit nat
  | BtConnCtxAlloc nat "nat option"
  | Memset "nat option"
  | BtNusClientInit "nat option"
  | BtGattDmStart nat nat
  | BtGattDmDataPrint
  | BtNusHandlesAssign nat
  | BtNusSubscribeReceive nat
  | BtGattDmDataRelease
  | BtScanStart
  | BtScanStop
  | BtConnUnref nat

section \<open>atoi\<close>

text \<open>
  The C library's \<open>atoi\<close> on the bytes that start at its argument: white space is
  skipped, one sign is read, then decimal digits up to the first byte that is not a
  digit (the terminating NUL is such a byte). The value is an \<open>int\<close> of 32 bits: the
  loop \<open>n = 10 * n + digit\<close> runs in a 32-bit word, so a long run of digits wraps around,
  and the result is read as a signed number.
\<close>

definition isspace :: "byte \<Rightarrow> bool" where
  "isspace c \<longleftrightarrow> c = 32 \<or> (9 \<le> c \<and> c \<le> 13)"

definition isdigit :: "byte \<Rightarrow> bool" where
  "isdigit c \<longleftrightarrow> 48 \<le> c \<and> c \<le> 57"

fun atoi_digits :: "32 word \<Rightarrow> byte list \<Rightarrow> 32 word" where
  "atoi_digits n [] = n"
| "atoi_digits n (c # cs) =
     (if isdigit c then atoi_digits (10 * n + (ucast c - 48)) cs else n)"

definition atoi :: "byte list \<Rightarrow> int" where
  "atoi s =
     (case dropWhile isspace s of
        [] \<Rightarrow> 0
      | c # cs \<Rightarrow>
          if c = 45 then sint (- atoi_digits 0 cs)
          else if c = 43 then sint (atoi_digits 0 cs)
          else sint (atoi_digits 0 (c # cs)))"

section \<open>The peer registry and the routing function\<close>

text \<open>
  The connection context library (\<open>bt_conn_ctx_*\<close>), \<open>bt_nus_client_send\<close> and
  \<open>k_sem_take\<close> belong to the SDK, so what they return is a parameter of the model.
  Each peer id is looked up at most once in one call of \<open>multi_nus_send\<close>, so a function
  of the id also covers a registry that changes while the call runs: the count is what
  \<open>bt_conn_ctx_count\<close> returned at entry, the lookup is what \<open>bt_conn_ctx_get_by_id\<close>
  returns at the moment of dispatch. \<open>str_tail\<close> holds the bytes that follow the
  two-byte array \<open>str\<close> in memory: the array has no terminating NUL, so \<open>atoi\<close> reads on
  into them.
\<close>

record bt_conn_ctx =
  ctx_conn :: nat
  ctx_data :: "nat option"

record nus_env =
  bt_conn_ctx_count :: nat
  bt_conn_ctx_get_by_id :: "nat \<Rightarrow> bt_conn_ctx option"
  str_tail :: "byte list"
  bt_nus_client_send_ret :: "nat \<Rightarrow> int"
  k_sem_take_ret :: "nat \<Rightarrow> int"

text \<open>
  The block that both branches of \<open>multi_nus_send\<close> run for a context that was found
  (lines 134-158 and 166-190): send, log, release, wait for the completion semaphore.
  Nothing is done for a null context or a null client, and \<open>err\<close> keeps its value.
\<close>

definition send_and_wait ::
  "nus_env \<Rightarrow> nat \<Rightarrow> u16 \<Rightarrow> nat \<Rightarrow> call list \<times> int \<Rightarrow> call list \<times> int" where
  "send_and_wait e moff mlen i acc =
     (case bt_conn_ctx_get_by_id e i of
        None \<Rightarrow> acc
      | Some ctx \<Rightarrow>
          (case ctx_data ctx of
             None \<Rightarrow> acc
           | Some nus_client \<Rightarrow>
               (fst acc
                  @ [BtNusClientSend nus_client moff mlen (bt_nus_client_send_ret e i)]
                  @ (if bt_nus_client_send_ret e i \<noteq> 0
                     then [LOG_WRN ''Failed to send data over BLE connection'']
                     else [LOG_INF ''Sent to server''])
                  @ [BtConnCtxRelease (Some nus_client),
                     KSemTake NUS_WRITE_TIMEOUT (k_sem_take_ret e i)]
                  @ (if k_sem_take_ret e i \<noteq> 0 then [LOG_WRN ''NUS send timeout''] else []),
                k_sem_take_ret e i)))"

function broadcast_loop ::
  "nus_env \<Rightarrow> nat \<Rightarrow> u16 \<Rightarrow> nat \<Rightarrow> nat \<Rightarrow> call list \<times> int \<Rightarrow> call list \<times> int" where
  "broadcast_loop e moff mlen i num_nus_conns acc =
     (if i < num_nus_conns
      then broadcast_loop e moff mlen (Suc i) num_nus_conns (send_and_wait e moff mlen i acc)
      else acc)"
  by pat_completeness auto
termination
  by (relation "measure (\<lambda>(e, moff, mlen, i, n, acc). n - i)") auto

declare broadcast_loop.simps [simp del]

text \<open>
  \<open>multi_nus_send\<close> returns the calls it made and its \<open>err\<close>. The message pointer is
  kept as an offset into \<open>buf->data\<close>; \<open>length\<close> is an \<open>int\<close> and is converted to the
  \<open>uint16_t\<close> parameter of \<open>bt_nus_client_send\<close>.
\<close>

definition multi_nus_send :: "nus_env \<Rightarrow> uart_data_t \<Rightarrow> call list \<times> int" where
  "multi_nus_send e buf =
     (let message = data buf;
          length0 = uint (len buf);
          num_nus_conns = bt_conn_ctx_count e;
          (broadcast, nus_index, moff, mlength) =
            (if message ! 0 = ROUTED_MESSAGE_CHAR then
               (let nus_index = atoi ([message ! 1, message ! 2] @ str_tail e) in
                if 0 \<le> nus_index \<and> nus_index < int num_nus_conns
                then (False, nus_index, 3, length0 - 3)
                else if nus_index = BROADCAST_INDEX
                then (True, nus_index, 3, length0 - 3)
                else (True, nus_index, 0, length0))
             else (True, 0, 0, length0))
      in if \<not> broadcast
         then send_and_wait e moff (word_of_int mlength) (nat nus_index) ([], 0)
         else broadcast_loop e moff (word_of_int mlength) 0 num_nus_conns
                ([LOG_INF ''Broadcast''], 0))"

text \<open>What a trace sent to the peers: the client, and the bytes the pointer and length denote.\<close>

fun nus_sends :: "call list \<Rightarrow> (nat \<times> nat \<times> u16) list" where
  "nus_sends [] = []"
| "nus_sends (BtNusClientSend c moff mlen r # cs) = (c, moff, mlen) # nus_sends cs"
| "nus_sends (_ # cs) = nus_sends cs"

definition msg_bytes :: "uart_data_t \<Rightarrow> nat \<Rightarrow> u16 \<Rightarrow> byte list" where
  "msg_bytes buf moff mlen = take (unat mlen) (drop moff (data buf))"

definition dispatched :: "uart_data_t \<Rightarrow> call list \<Rightarrow> (nat \<times> byte list) list" where
  "dispatched buf tr = map (\<lambda>(c, moff, mlen). (c, msg_bytes buf moff mlen)) (nus_sends tr)"

text \<open>
  The connected peers as the registry's contract describes them: the ids below the count
  whose lookup yields a context with a client, in ascending order.
\<close>

definition client_of :: "nus_env \<Rightarrow> nat \<Rightarrow> nat option" where
  "client_of e i = (case bt_conn_ctx_get_by_id e i of None \<Rightarrow> None | Some ctx \<Rightarrow> ctx_data ctx)"

definition connected_clients :: "nus_env \<Rightarrow> nat list" where
  "connected_clients e = List.map_filter (client_of e) [0..<bt_conn_ctx_count e]"

definition ends_number :: "byte list \<Rightarrow> bool" where
  "ends_number cs = (case cs of [] \<Rightarrow> True | c # _ \<Rightarrow> \<not> isdigit c)"

section \<open>The state of the bridge\<close>

text \<open>
  Buffers live on the heap (\<open>k_malloc\<close>, \<open>k_free\<close>), addressed by a number. The two
  FIFOs hold buffer addresses. \<open>current_buf\<close>, \<open>aborted_len\<close>, \<open>buf_release\<close> and
  \<open>aborted_buf\<close> are the static variables of \<open>uart_cb\<close>, \<open>default_conn\<close> is the file's
  global, and \<open>trace\<close> collects the calls made so far.
\<close>

record bridge_state =
  heap :: "nat \<Rightarrow> uart_data_t option"
  fifo_uart_tx_data :: "nat list"
  fifo_uart_rx_data :: "nat list"
  current_buf :: "byte_ptr option"
  aborted_len :: size_t
  buf_release :: bool
  aborted_buf :: "byte_ptr option"
  default_conn :: "nat option"
  trace :: "call list"

definition emit :: "call list \<Rightarrow> bridge_state \<Rightarrow> bridge_state" where
  "emit cs s = s\<lparr>trace := trace s @ cs\<rparr>"

text \<open>
  What \<open>k_malloc\<close> returns is a parameter: \<open>None\<close> for a null pointer, or the address
  of the block together with the uninitialised contents found there. The \<open>data\<close> array
  of the block has \<open>UART_BUF_SIZE\<close> bytes whatever those contents are.
\<close>

type_synonym malloc_ret = "(nat \<times> uart_data_t) option"

definition fit :: "byte list \<Rightarrow> byte list" where
  "fit bs = take UART_BUF_SIZE (bs @ replicate UART_BUF_SIZE 0)"

text \<open>\<open>CONTAINER_OF(p, struct uart_data_t, data)\<close> is a buffer only for a pointer to the
  start of a \<open>data\<close> array.\<close>

definition container_of :: "byte_ptr \<Rightarrow> nat option" where
  "container_of p = (if off p = 0 then Some (blk p) else None)"

section \<open>Bytes from a peer: ble\_data\_received\<close>

text \<open>
  The environment of one call: the result of \<open>k_malloc\<close>, the registry seen by
  \<open>multi_nus_send\<close> and the result of \<open>uart_tx\<close>, each for the loop iteration that
  starts at a given \<open>pos\<close>. The received bytes are the list \<open>d\<close>, and \<open>len\<close> is its
  length. \<open>pos\<close> starts at 0 and advances by at most \<open>len - pos\<close>, so it never passes
  \<open>len\<close> and the loop condition \<open>pos != len\<close> is \<open>pos < len\<close>.
\<close>

record rx_env =
  k_malloc_at :: "nat \<Rightarrow> malloc_ret"
  nus_env_at :: "nat \<Rightarrow> nus_env"
  uart_tx_ret_at :: "nat \<Rightarrow> int"

text \<open>The number of bytes an iteration copies: \<open>tx->len\<close> of lines 218-222.\<close>

definition chunk_size :: "byte list \<Rightarrow> nat \<Rightarrow> nat" where
  "chunk_size d pos =
     (if length d - pos > UART_BUF_SIZE - 1 then UART_BUF_SIZE - 1 else length d - pos)"

text \<open>The buffer \<open>tx\<close> as one iteration fills it (lines 216-234).\<close>

definition fill_tx :: "byte list \<Rightarrow> nat \<Rightarrow> uart_data_t \<Rightarrow> uart_data_t" where
  "fill_tx d pos junk =
     (let n = chunk_size d pos;
          tx = \<lparr>data = take n (drop pos d) @ drop n (fit (data junk)), len = of_nat n\<rparr>
      in if pos + n = length d \<and> d ! (length d - 1) = CR
         then tx\<lparr>data := (data tx)[unat (len tx) := LF], len := len tx + 1\<rparr>
         else tx)"

text \<open>The rest of one iteration, for a buffer that was allocated at \<open>a\<close> (lines 215-246).\<close>

definition relay_chunk ::
  "rx_env \<Rightarrow> byte list \<Rightarrow> nat \<Rightarrow> nat \<Rightarrow> uart_data_t \<Rightarrow> bridge_state \<Rightarrow> bridge_state" where
  "relay_chunk e d pos a junk s =
     (let tx = fill_tx d pos junk;
          routed = (if d ! 0 = ROUTED_MESSAGE_CHAR
                    then fst (multi_nus_send (nus_env_at e pos) tx) else []);
          err = uart_tx_ret_at e pos;
          s1 = emit ([KMalloc (Some a)] @ routed
                     @ [UartTx (BytePtr a 0) (ucast (len tx)) (frame tx)])
                 (s\<lparr>heap := (heap s)(a \<mapsto> tx)\<rparr>)
      in if err \<noteq> 0
         then emit [KFifoPutTx a] (s1\<lparr>fifo_uart_tx_data := fifo_uart_tx_data s1 @ [a]\<rparr>)
         else s1)"

function ble_data_received_loop ::
  "rx_env \<Rightarrow> byte list \<Rightarrow> nat \<Rightarrow> bridge_state \<Rightarrow> bridge_state" where
  "ble_data_received_loop e d pos s =
     (if pos < length d then
        (case k_malloc_at e pos of
           None \<Rightarrow>
             emit [KMalloc None, LOG_WRN ''Not able to allocate UART send data buffer''] s
         | Some (a, junk) \<Rightarrow>
             ble_data_received_loop e d (pos + chunk_size d pos) (relay_chunk e d pos a junk s))
      else s)"
  by pat_completeness auto
termination
  by (relation "measure (\<lambda>(e, d, pos, s). length d - pos)")
     (auto simp: chunk_size_def UART_BUF_SIZE_def)

declare ble_data_received_loop.simps [simp del]

definition ble_data_received :: "rx_env \<Rightarrow> byte list \<Rightarrow> bridge_state \<Rightarrow> bridge_state" where
  "ble_data_received e d s = ble_data_received_loop e d 0 s"

section \<open>The UART callback\<close>

datatype uart_event =
    UART_TX_DONE "byte_ptr option" size_t
  | UART_RX_RDY byte_ptr size_t
  | UART_RX_DISABLED
  | UART_RX_BUF_REQUEST
  | UART_RX_BUF_RELEASED byte_ptr
  | UART_TX_ABORTED "byte_ptr option" size_t
  | UART_RX_STOPPED

record cb_env =
  k_malloc_ret :: malloc_ret
  uart_tx_ret :: int

text \<open>
  \<open>uart_cb\<close> returns \<open>None\<close> where the C code would read a buffer through a pointer that
  is null, is not the start of a \<open>data\<close> array or is not on the heap, or would index
  \<open>rx.buf\<close> outside the array: the behaviour is undefined there.
\<close>

definition new_rx_buf :: "nat \<Rightarrow> uart_data_t \<Rightarrow> bridge_state \<Rightarrow> bridge_state" where
  "new_rx_buf a junk s = s\<lparr>heap := (heap s)(a \<mapsto> \<lparr>data = fit (data junk), len = 0\<rparr>)\<rparr>"

fun uart_cb :: "cb_env \<Rightarrow> uart_event \<Rightarrow> bridge_state \<Rightarrow> bridge_state option" where
  "uart_cb e (UART_TX_DONE tx_buf tx_len) s =
     (if tx_len = 0 \<or> tx_buf = None then Some s
      else
        (let p = (case aborted_buf s of Some ab \<Rightarrow> Some ab | None \<Rightarrow> tx_buf);
             s1 = (if aborted_buf s \<noteq> None then s\<lparr>aborted_buf := None, aborted_len := 0\<rparr> else s)
         in case Option.bind p container_of of
              None \<Rightarrow> None
            | Some a \<Rightarrow>
                (let s2 = emit [KFree a] (s1\<lparr>heap := (heap s1)(a := None)\<rparr>)
                 in case fifo_uart_tx_data s2 of
                      [] \<Rightarrow> Some s2
                    | b # rest \<Rightarrow>
                        (case heap s2 b of
                           None \<Rightarrow> None
                         | Some buf \<Rightarrow>
                             Some (emit ([UartTx (BytePtr b 0) (ucast (len buf)) (frame buf)]
                                         @ (if uart_tx_ret e \<noteq> 0
                                            then [LOG_WRN ''Failed to send data over UART'']
                                            else []))
                                     (s2\<lparr>fifo_uart_tx_data := rest\<rparr>))))))"
| "uart_cb e (UART_RX_RDY rx_buf rx_len) s =
     (case container_of rx_buf of
        None \<Rightarrow> None
      | Some a \<Rightarrow>
          (case heap s a of
             None \<Rightarrow> None
           | Some buf0 \<Rightarrow>
               (let buf = buf0\<lparr>len := ucast (ucast (len buf0) + rx_len :: size_t)\<rparr>;
                    s1 = s\<lparr>heap := (heap s)(a \<mapsto> buf), buf_release := False\<rparr>
                in if unat (len buf) = UART_BUF_SIZE
                   then Some (emit [KFifoPutRx a]
                                (s1\<lparr>fifo_uart_rx_data := fifo_uart_rx_data s1 @ [a]\<rparr>))
                   else if len buf = 0 \<or> UART_BUF_SIZE < unat (len buf) then None
                   else if data buf ! (unat (len buf) - 1) = LF
                           \<or> data buf ! (unat (len buf) - 1) = CR
                   then Some (emit [KFifoPutRx a, UartRxDisable]
                                (s1\<lparr>fifo_uart_rx_data := fifo_uart_rx_data s1 @ [a],
                                    current_buf := Some rx_buf, buf_release := True\<rparr>))
                   else Some s1)))"
| "uart_cb e UART_RX_DISABLED s =
     (case k_malloc_ret e of
        Some (a, junk) \<Rightarrow>
          Some (emit [KMalloc (Some a), UartRxEnable a UART_BUF_SIZE UART_RX_TIMEOUT]
                  (new_rx_buf a junk s))
      | None \<Rightarrow>
          Some (emit [KMalloc None, LOG_WRN ''Not able to allocate UART receive buffer'',
                      KDelayedWorkSubmit UART_WAIT_FOR_BUF_DELAY] s))"
| "uart_cb e UART_RX_BUF_REQUEST s =
     (case k_malloc_ret e of
        Some (a, junk) \<Rightarrow>
          Some (emit [KMalloc (Some a), UartRxBufRsp a UART_BUF_SIZE] (new_rx_buf a junk s))
      | None \<Rightarrow>
          Some (emit [KMalloc None, LOG_WRN ''Not able to allocate UART receive buffer''] s))"
| "uart_cb e (UART_RX_BUF_RELEASED rx_buf) s =
     (if buf_release s \<and> current_buf s \<noteq> Some rx_buf
      then (case container_of rx_buf of
              None \<Rightarrow> None
            | Some a \<Rightarrow>
                Some (emit [KFree a]
                        (s\<lparr>heap := (heap s)(a := None), buf_release := False,
                           current_buf := None\<rparr>)))
      else Some s)"
| "uart_cb e (UART_TX_ABORTED tx_buf tx_len) s =
     (let ab = (case aborted_buf s of None \<Rightarrow> tx_buf | Some p \<Rightarrow> Some p);
          al = aborted_len s + tx_len
      in case Option.bind ab container_of of
           None \<Rightarrow> None
         | Some a \<Rightarrow>
             (case heap s a of
                None \<Rightarrow> None
              | Some buf \<Rightarrow>
                  Some (emit [UartTx (BytePtr a (unat al)) (ucast (len buf) - al)
                                (take (unat (ucast (len buf) - al :: size_t))
                                   (drop (unat al) (data buf)))]
                          (s\<lparr>aborted_buf := ab, aborted_len := al\<rparr>))))"
| "uart_cb e UART_RX_STOPPED s = Some s"

definition uart_work_handler :: "cb_env \<Rightarrow> bridge_state \<Rightarrow> bridge_state" where
  "uart_work_handler e s =
     (case k_malloc_ret e of
        Some (a, junk) \<Rightarrow>
          emit [KMalloc (Some a), UartRxEnable a UART_BUF_SIZE UART_RX_TIMEOUT]
            (new_rx_buf a junk s)
      | None \<Rightarrow>
          emit [KMalloc None, LOG_WRN ''Not able to allocate UART receive buffer'',
                KDelayedWorkSubmit UART_WAIT_FOR_BUF_DELAY] s)"

text \<open>One turn of the loop in \<open>main\<close>: \<open>k_fifo_get\<close> with \<open>K_FOREVER\<close> does not return
  while the queue is empty, which is \<open>None\<close> here.\<close>

definition main_loop_step :: "nus_env \<Rightarrow> bridge_state \<Rightarrow> bridge_state option" where
  "main_loop_step e s =
     (case fifo_uart_rx_data s of
        [] \<Rightarrow> None
      | a # rest \<Rightarrow>
          (case heap s a of
             None \<Rightarrow> None
           | Some buf \<Rightarrow>
               Some (emit (fst (multi_nus_send e buf) @ [KFree a])
                       (s\<lparr>fifo_uart_rx_data := rest, heap := (heap s)(a := None)\<rparr>))))"

section \<open>Connection handlers\<close>

definition EALREADY :: int where
  "EALREADY = 120"

record conn_env =
  bt_conn_ctx_alloc_ret :: "nat option"
  bt_conn_ctx_get_ret :: "nat option"
  bt_nus_client_init_ret :: int
  bt_gatt_dm_start_ret :: int
  bt_scan_start_ret :: int
  bt_scan_stop_ret :: int

definition gatt_discover :: "conn_env \<Rightarrow> nat \<Rightarrow> call list" where
  "gatt_discover e conn =
     (case bt_conn_ctx_get_ret e of
        None \<Rightarrow> []
      | Some nus_client \<Rightarrow>
          [BtGattDmStart conn nus_client]
          @ (if bt_gatt_dm_start_ret e \<noteq> 0
             then [LOG_ERR ''could not start the discovery procedure''] else [])
          @ [BtConnCtxRelease (Some nus_client)])"

definition connected :: "conn_env \<Rightarrow> nat \<Rightarrow> byte \<Rightarrow> bridge_state \<Rightarrow> bridge_state" where
  "connected e conn conn_err s =
     (if conn_err \<noteq> 0 then
        (let s1 = emit [LOG_INF ''Failed to connect''] s
         in if default_conn s = Some conn
            then emit ([BtConnUnref conn, BtScanStart]
                       @ (if bt_scan_start_ret e \<noteq> 0
                          then [LOG_ERR ''Scanning failed to start''] else []))
                   (s1\<lparr>default_conn := None\<rparr>)
            else s1)
      else
        (let nus_client = bt_conn_ctx_alloc_ret e
         in emit ([LOG_INF ''Connected'', BtConnCtxAlloc conn nus_client]
                  @ (if nus_client = None
                     then [LOG_WRN ''There is no free memory to allocate the connection context'']
                     else [])
                  @ [Memset nus_client, BtNusClientInit nus_client, BtConnCtxRelease nus_client]
                  @ (if bt_nus_client_init_ret e \<noteq> 0
                     then [LOG_ERR ''NUS Client initialization failed'']
                     else [LOG_INF ''NUS Client module initialized''])
                  @ gatt_discover e conn
                  @ [BtScanStop]
                  @ (if bt_scan_stop_ret e = 0 \<and> bt_scan_stop_ret e \<noteq> - EALREADY
                     then [LOG_ERR ''Stop LE scan failed''] else []))
              s))"

text \<open>
  \<open>discovery_complete\<close> looks its client up in the registry, prints the index found (99
  when there is none) into a three-byte array, overwrites the third byte with a carriage
  return and sends the array. It does not take \<open>nus_write_sem\<close> afterwards.
\<close>

fun decimal :: "nat \<Rightarrow> byte list" where
  "decimal n = (if n < 10 then [of_nat (48 + n)] else decimal (n div 10) @ [of_nat (48 + n mod 10)])"

declare decimal.simps [simp del]

definition discovery_complete :: "nus_env \<Rightarrow> int \<Rightarrow> nat \<Rightarrow> call list" where
  "discovery_complete e scan_err nus =
     (let num_nus_conns = bt_conn_ctx_count e;
          nus_index = (case List.find (\<lambda>i. client_of e i = Some nus) [0..<num_nus_conns] of
                         None \<Rightarrow> 99 | Some i \<Rightarrow> i);
          message = take 2 (decimal nus_index @ [0]) @ [CR];
          err = bt_nus_client_send_ret e nus_index
      in [LOG_INF ''Service discovery completed'', BtGattDmDataPrint, BtNusHandlesAssign nus,
          BtNusSubscribeReceive nus, BtGattDmDataRelease, BtScanStart]
         @ (if scan_err \<noteq> 0 then [LOG_ERR ''Scanning failed to start'']
            else [LOG_INF ''Scanning started''])
         @ [BtNusClientSendMsg nus message err]
         @ (if err \<noteq> 0 then [LOG_WRN ''Failed to send data over BLE connection'']
            else [LOG_INF ''Sent to server'']))"

section \<open>The completion semaphore\<close>

text \<open>
  \<open>ble_data_sent\<close> is the callback the Bluetooth stack runs when a write has completed:
  it gives \<open>nus_write_sem\<close>, which \<open>K_SEM_DEFINE(nus_write_sem, 0, 1)\<close> creates with the
  count 0 and the limit 1.
\<close>

definition ble_data_sent :: "byte \<Rightarrow> call list" where
  "ble_data_sent err = [KSemGive] @ (if err \<noteq> 0 then [LOG_WRN ''ATT error code''] else [])"

text \<open>
  The semaphore and the peer transport, driven by the calls of the program and by the
  completions of the stack. \<open>in_flight\<close> lists the clients with a write that the stack
  accepted and has not completed. A completion that arrives while \<open>k_sem_take\<close> waits
  stands before the take in the schedule. A schedule is refused (\<open>None\<close>) when a recorded
  result of \<open>k_sem_take\<close> disagrees with the semaphore: 0 needs a token, a timeout needs
  none.
\<close>

record link_state =
  sem_count :: nat
  in_flight :: "nat list"

datatype action = Prog call | Completed nat byte

definition k_sem_give :: "link_state \<Rightarrow> link_state" where
  "k_sem_give l = l\<lparr>sem_count := min 1 (sem_count l + 1)\<rparr>"

fun prog_step :: "call \<Rightarrow> link_state \<Rightarrow> link_state option" where
  "prog_step (BtNusClientSend c moff mlen r) l =
     Some (if r = 0 then l\<lparr>in_flight := in_flight l @ [c]\<rparr> else l)"
| "prog_step (BtNusClientSendMsg c msg r) l =
     Some (if r = 0 then l\<lparr>in_flight := in_flight l @ [c]\<rparr> else l)"
| "prog_step (KSemTake t r) l =
     (if r = 0 then (if 0 < sem_count l then Some (l\<lparr>sem_count := sem_count l - 1\<rparr>) else None)
      else (if sem_count l = 0 then Some l else None))"
| "prog_step KSemGive l = Some (k_sem_give l)"
| "prog_step _ l = Some l"

fun prog_steps :: "call list \<Rightarrow> link_state \<Rightarrow> link_state option" where
  "prog_steps [] l = Some l"
| "prog_steps (c # cs) l = (case prog_step c l of None \<Rightarrow> None | Some l' \<Rightarrow> prog_steps cs l')"

fun link_step :: "action \<Rightarrow> link_state \<Rightarrow> link_state option" where
  "link_step (Prog c) l = prog_step c l"
| "link_step (Completed c err) l =
     (if c \<in> set (in_flight l)
      then prog_steps (ble_data_sent err) (l\<lparr>in_flight := remove1 c (in_flight l)\<rparr>)
      else None)"

text \<open>The states a schedule passes through, or \<open>None\<close> when it is refused.\<close>

fun link_run :: "action list \<Rightarrow> link_state \<Rightarrow> link_state list option" where
  "link_run [] l = Some [l]"
| "link_run (a # as) l =
     (case link_step a l of
        None \<Rightarrow> None
      | Some l' \<Rightarrow> (case link_run as l' of None \<Rightarrow> None | Some ls \<Rightarrow> Some (l # ls)))"

definition nus_write_sem_init :: link_state where
  "nus_write_sem_init = \<lparr>sem_count = 0, in_flight = []\<rparr>"

section \<open>Reading traces, and the frames of the specification\<close>

text \<open>
  The bytes handed to \<open>uart_tx\<close> and the delays of the submitted work items, in the
  order of the calls; \<open>relayed\<close> are the frames one call of \<open>ble_data_received\<close> hands
  to \<open>uart_tx\<close>.
\<close>

fun uart_tx_frames :: "call list \<Rightarrow> byte list list" where
  "uart_tx_frames [] = []"
| "uart_tx_frames (UartTx p n bs # cs) = bs # uart_tx_frames cs"
| "uart_tx_frames (_ # cs) = uart_tx_frames cs"

fun delayed_submits :: "call list \<Rightarrow> nat list" where
  "delayed_submits [] = []"
| "delayed_submits (KDelayedWorkSubmit t # cs) = t # delayed_submits cs"
| "delayed_submits (_ # cs) = delayed_submits cs"

definition relayed :: "rx_env \<Rightarrow> byte list \<Rightarrow> bridge_state \<Rightarrow> byte list list" where
  "relayed e d s =
     drop (length (uart_tx_frames (trace s))) (uart_tx_frames (trace (ble_data_received e d s)))"

text \<open>
  The framing in the words of the specification: the bytes of a peer are cut into
  pieces of at most \<open>UART_BUF_SIZE - 1\<close> bytes, and a line feed is added to the last
  piece when the bytes end in a carriage return. Each piece comes with the position it
  starts at. \<open>assembled\<close> are the pieces up to the first allocation that fails,
  \<open>queued\<close> the buffers of those for which \<open>uart_tx\<close> returned an error, and
  \<open>routed_sends\<close> what \<open>multi_nus_send\<close> sends for the assembled pieces.
\<close>

function chunks :: "byte list \<Rightarrow> nat \<Rightarrow> (nat \<times> byte list) list" where
  "chunks d pos =
     (if pos < length d
      then (pos, take (chunk_size d pos) (drop pos d)
                 @ (if pos + chunk_size d pos = length d \<and> last d = CR then [LF] else []))
           # chunks d (pos + chunk_size d pos)
      else [])"
  by pat_completeness auto
termination
  by (relation "measure (\<lambda>(d, pos). length d - pos)")
     (auto simp: chunk_size_def UART_BUF_SIZE_def)

declare chunks.simps [simp del]

definition assembled :: "rx_env \<Rightarrow> byte list \<Rightarrow> nat \<Rightarrow> (nat \<times> byte list) list" where
  "assembled e d pos = takeWhile (\<lambda>(p, bs). k_malloc_at e p \<noteq> None) (chunks d pos)"

definition queued :: "rx_env \<Rightarrow> byte list \<Rightarrow> nat \<Rightarrow> nat list" where
  "queued e d pos =
     map (\<lambda>(p, bs). fst (the (k_malloc_at e p)))
       (filter (\<lambda>(p, bs). uart_tx_ret_at e p \<noteq> 0) (assembled e d pos))"

definition routed_sends :: "rx_env \<Rightarrow> byte list \<Rightarrow> nat \<Rightarrow> (nat \<times> nat \<times> u16) list" where
  "routed_sends e d pos =
     concat (map (\<lambda>(p, bs). nus_sends (fst (multi_nus_send (nus_env_at e p)
                                 (fill_tx d p (snd (the (k_malloc_at e p)))))))
               (assembled e d pos))"

text \<open>The calls of the serial receive path when it finds no memory.\<close>

definition rx_retry :: "call list" where
  "rx_retry = [KMalloc None, LOG_WRN ''Not able to allocate UART receive buffer'',
               KDelayedWorkSubmit UART_WAIT_FOR_BUF_DELAY]"

text \<open>
  Aborted transmissions. \<open>uart_cb_run\<close> feeds a list of events to \<open>uart_cb\<close>.
  \<open>abort_events a k ns\<close> are the aborts the driver raises for a buffer at \<open>a\<close> whose
  transmission in progress started at offset \<open>k\<close>: each event carries the pointer of the
  request it cuts short and the number of bytes that went out, and the next request
  starts where that one stopped. \<open>resumed a bs k\<close> is the request for the rest of the
  frame \<open>bs\<close> from offset \<open>k\<close>. \<open>transmitted rs ns\<close> is what went out on the wire
  when the requests \<open>rs\<close> were cut short after \<open>ns\<close> bytes each and the last one ran
  to its end.
\<close>

fun uart_tx_calls :: "call list \<Rightarrow> (byte_ptr \<times> size_t \<times> byte list) list" where
  "uart_tx_calls [] = []"
| "uart_tx_calls (UartTx p n bs # cs) = (p, n, bs) # uart_tx_calls cs"
| "uart_tx_calls (_ # cs) = uart_tx_calls cs"

fun uart_cb_run :: "cb_env \<Rightarrow> uart_event list \<Rightarrow> bridge_state \<Rightarrow> bridge_state option" where
  "uart_cb_run e [] s = Some s"
| "uart_cb_run e (ev # evs) s =
     (case uart_cb e ev s of None \<Rightarrow> None | Some s' \<Rightarrow> uart_cb_run e evs s')"

fun abort_events :: "nat \<Rightarrow> nat \<Rightarrow> size_t list \<Rightarrow> uart_event list" where
  "abort_events a k [] = []"
| "abort_events a k (n # ns) =
     UART_TX_ABORTED (Some (BytePtr a k)) n # abort_events a (k + unat n) ns"

fun running_sums :: "nat \<Rightarrow> nat list \<Rightarrow> nat list" where
  "running_sums k [] = []"
| "running_sums k (n # ns) = (k + n) # running_sums (k + n) ns"

fun transmitted :: "byte list list \<Rightarrow> nat list \<Rightarrow> byte list" where
  "transmitted [] ns = []"
| "transmitted (r # rs) [] = r"
| "transmitted (r # rs) (n # ns) = take n r @ transmitted rs ns"

definition resumed :: "nat \<Rightarrow> byte list \<Rightarrow> nat \<Rightarrow> byte_ptr \<times> size_t \<times> byte list" where
  "resumed a bs k = (BytePtr a k, of_nat (length bs - k), drop k bs)"

text \<open>\<open>gated False cs\<close>: in the calls \<open>cs\<close> every \<open>bt_nus_client_send\<close> is followed by
  a \<open>k_sem_take\<close> before the next send and before the end.\<close>

fun gated :: "bool \<Rightarrow> call list \<Rightarrow> bool" where
  "gated pending [] = (\<not> pending)"
| "gated pending (BtNusClientSend c moff mlen r # cs) = (\<not> pending \<and> gated True cs)"
| "gated pending (KSemTake t r # cs) = gated False cs"
| "gated pending (_ # cs) = gated pending cs"

section \<open>Example inputs\<close>

text \<open>
  A buffer holding a given frame; two connected peers with the clients 100 and 101, the
  same registry after peer 0 has gone, the same with given bytes behind the array \<open>str\<close>
  of \<open>multi_nus_send\<close>, and a registry of 100 peers; the state at start-up; a peer link with
  memory for every chunk and one with none; a UART callback without and with memory; a
  state with one buffer on the heap; a full registry; and a schedule in which both peers
  are told their ids by \<open>discovery_complete\<close> before a frame is broadcast.
\<close>

definition mk_buf :: "byte list \<Rightarrow> uart_data_t" where
  "mk_buf bs = \<lparr>data = bs @ replicate (UART_BUF_SIZE - length bs) 0, len = of_nat (length bs)\<rparr>"

definition two_peers :: nus_env where
  "two_peers =
     \<lparr>bt_conn_ctx_count = 2,
      bt_conn_ctx_get_by_id = (\<lambda>i. if i < 2 then Some \<lparr>ctx_conn = i, ctx_data = Some (100 + i)\<rparr> else None),
      str_tail = [],
      bt_nus_client_send_ret = (\<lambda>_. 0),
      k_sem_take_ret = (\<lambda>_. 0)\<rparr>"

definition peer0_gone :: nus_env where
  "peer0_gone = two_peers\<lparr>bt_conn_ctx_get_by_id :=
      (\<lambda>i. if i = 1 then Some \<lparr>ctx_conn = 1, ctx_data = Some 101\<rparr> else None)\<rparr>"

definition eight_behind :: nus_env where
  "eight_behind = two_peers\<lparr>str_tail := [56, 207]\<rparr>"

definition one_behind :: nus_env where
  "one_behind = two_peers\<lparr>str_tail := [49]\<rparr>"


definition nine_behind :: nus_env where
  "nine_behind = two_peers\<lparr>str_tail := [57]\<rparr>"


definition bridge_init :: bridge_state where
  "bridge_init =
     \<lparr>heap = (\<lambda>a. None), fifo_uart_tx_data = [], fifo_uart_rx_data = [], current_buf = None,
      aborted_len = 0, buf_release = False, aborted_buf = None, default_conn = None,
      trace = []\<rparr>"

definition rx_two_peers :: rx_env where
  "rx_two_peers =
     \<lparr>k_malloc_at = (\<lambda>pos. Some (pos, \<lparr>data = [], len = 0\<rparr>)),
      nus_env_at = (\<lambda>pos. two_peers),
      uart_tx_ret_at = (\<lambda>pos. if pos = 0 then 0 else - 16)\<rparr>"

definition rx_no_memory :: rx_env where
  "rx_no_memory = rx_two_peers\<lparr>k_malloc_at := (\<lambda>pos. None)\<rparr>"

definition star_message :: "byte list" where
  "star_message = [42, 48, 49, 104, 104, 104, 104, 104, 104, 104, 104, 104, 104, 104, 104, 104, 104, 104, 104, 104, 104]"

definition no_memory :: cb_env where
  "no_memory = \<lparr>k_malloc_ret = None, uart_tx_ret = 0\<rparr>"

definition memory_at :: "nat \<Rightarrow> cb_env" where
  "memory_at a = \<lparr>k_malloc_ret = Some (a, \<lparr>data = [], len = 0\<rparr>), uart_tx_ret = 0\<rparr>"

definition holding :: "nat \<Rightarrow> uart_data_t \<Rightarrow> bridge_state" where
  "holding a buf = bridge_init\<lparr>heap := (\<lambda>b. if b = a then Some buf else None)\<rparr>"

definition registry_full :: conn_env where
  "registry_full =
     \<lparr>bt_conn_ctx_alloc_ret = None, bt_conn_ctx_get_ret = None, bt_nus_client_init_ret = - 22,
      bt_gatt_dm_start_ret = 0, bt_scan_start_ret = 0, bt_scan_stop_ret = 0\<rparr>"

definition stale_token_schedule :: "action list" where
  "stale_token_schedule =
     map Prog (discovery_complete two_peers 0 100) @ [Completed 100 0]
     @ map Prog (discovery_complete two_peers 0 101) @ [Completed 101 0]
     @ map Prog (take 6 (fst (multi_nus_send two_peers (mk_buf [104, 105, 13]))))"

section \<open>Routing: what multi\_nus\_send dispatches\<close>

lemma nus_sends_append: "nus_sends (xs @ ys) = nus_sends xs @ nus_sends ys"
  by (induction xs rule: nus_sends.induct) simp_all

lemma broadcast_loop_foldl:
  "broadcast_loop e moff mlen i n acc = foldl (\<lambda>a j. send_and_wait e moff mlen j a) acc [i..<n]"
proof (induction e moff mlen i n acc rule: broadcast_loop.induct)
  case (1 e moff mlen i n acc)
  show ?case
  proof (cases "i < n")
    case True
    then show ?thesis
      using 1 by (subst broadcast_loop.simps) (simp add: upt_conv_Cons)
  next
    case False
    then show ?thesis by (subst broadcast_loop.simps) simp
  qed
qed

lemma nus_sends_send_and_wait:
  "nus_sends (fst (send_and_wait e moff mlen i acc)) =
     nus_sends (fst acc) @ (case client_of e i of None \<Rightarrow> [] | Some c \<Rightarrow> [(c, moff, mlen)])"
  by (simp add: send_and_wait_def client_of_def nus_sends_append split: option.splits)

lemma nus_sends_foldl:
  "nus_sends (fst (foldl (\<lambda>a j. send_and_wait e moff mlen j a) acc js)) =
     nus_sends (fst acc) @ map (\<lambda>c. (c, moff, mlen)) (List.map_filter (client_of e) js)"
proof (induction js arbitrary: acc)
  case Nil
  show ?case by (simp add: List.map_filter_simps)
next
  case (Cons j js)
  show ?case
    by (simp add: Cons.IH nus_sends_send_and_wait List.map_filter_simps split: option.splits)
qed

lemma nus_sends_broadcast_loop:
  "nus_sends (fst (broadcast_loop e moff mlen 0 (bt_conn_ctx_count e) acc)) =
     nus_sends (fst acc) @ map (\<lambda>c. (c, moff, mlen)) (connected_clients e)"
  unfolding broadcast_loop_foldl connected_clients_def by (rule nus_sends_foldl)

lemma isdigit_unat: "isdigit c \<longleftrightarrow> 48 \<le> unat c \<and> unat c \<le> 57"
  by (simp add: isdigit_def word_le_nat_alt)

lemma isdigit_not_space: "isdigit c \<Longrightarrow> \<not> isspace c"
  by (auto simp: isdigit_unat isspace_def word_le_nat_alt)

lemma isdigit_not_sign: "isdigit c \<Longrightarrow> c \<noteq> 45 \<and> c \<noteq> 43"
  by (auto simp: isdigit_unat)

lemma digit_value:
  assumes "isdigit c"
  shows "(ucast c - 48 :: 32 word) = of_nat (unat c - 48)"
proof -
  have "(ucast c :: 32 word) = of_nat (unat c)" by simp
  moreover have "48 \<le> unat c" using assms by (simp add: isdigit_unat)
  ultimately show ?thesis by simp
qed

lemma sint_small: "n < 100 \<Longrightarrow> sint (of_nat n :: 32 word) = int n"
  by (simp add: signed_of_nat signed_take_bit_int_eq_self)

lemma atoi_two_digits:
  assumes "isdigit d1" "isdigit d2" "ends_number t"
  shows "atoi ([d1, d2] @ t) = 10 * (uint d1 - 48) + (uint d2 - 48)"
proof -
  let ?a = "unat d1 - 48" and ?b = "unat d2 - 48"
  have ab: "?a \<le> 9" "?b \<le> 9" "48 \<le> unat d1" "48 \<le> unat d2"
    using assms(1,2) by (auto simp: isdigit_unat)
  have stop: "atoi_digits n t = n" for n
    using assms(3) by (cases t) (simp_all add: ends_number_def)
  have "atoi ([d1, d2] @ t) = sint (atoi_digits 0 (d1 # d2 # t))"
    using isdigit_not_space[OF assms(1)] isdigit_not_sign[OF assms(1)]
    by (simp add: atoi_def)
  also have "atoi_digits 0 (d1 # d2 # t) = 10 * of_nat ?a + of_nat ?b"
    using assms(1,2) by (simp add: stop digit_value)
  also have "\<dots> = of_nat (10 * ?a + ?b)" by simp
  also have "sint (of_nat (10 * ?a + ?b) :: 32 word) = int (10 * ?a + ?b)"
    using ab by (intro sint_small) simp
  also have "\<dots> = 10 * (uint d1 - 48) + (uint d2 - 48)"
    using ab by (simp add: of_nat_diff)
  finally show ?thesis .
qed

lemma unat_len_minus3:
  fixes l :: u16
  assumes "3 \<le> unat l"
  shows "unat (word_of_int (uint l - 3) :: u16) = unat l - 3"
proof -
  have "(word_of_int (uint l - 3) :: u16) = l - 3" by simp
  moreover have "unat (l - 3) = unat l - unat (3 :: u16)"
    using assms by (intro unat_sub) (simp add: word_le_nat_alt)
  ultimately show ?thesis by simp
qed

lemma unat_len_minus3':
  fixes l :: u16
  assumes "3 \<le> unat l"
  shows "unat (l - 3) = unat l - 3"
  using unat_len_minus3[OF assms] by simp

lemma frame_prefix3:
  assumes "wf_buf buf" and "frame buf = a # b # c # p"
  shows "data buf ! 0 = a" and "data buf ! 1 = b" and "data buf ! 2 = c"
    and "msg_bytes buf 3 (len buf - 3) = p"
proof -
  let ?n = "unat (len buf)"
  have n: "?n \<le> length (data buf)"
    using assms(1) by (simp add: wf_buf_def)
  have tk: "take ?n (data buf) = a # b # c # p"
    using assms(2) by (simp add: frame_def)
  from tk have "length (take ?n (data buf)) = 3 + length p" by simp
  with n have n3: "?n = 3 + length p" by simp
  have nth: "i < ?n \<Longrightarrow> data buf ! i = (a # b # c # p) ! i" for i
    using nth_take[of i ?n "data buf"] tk by simp
  show "data buf ! 0 = a" using nth[of 0] n3 by simp
  show "data buf ! 1 = b" using nth[of 1] n3 by simp
  show "data buf ! 2 = c" using nth[of 2] n3 by simp
  have "take (?n - 3) (drop 3 (data buf)) = drop 3 (take ?n (data buf))"
    by (simp add: drop_take)
  also have "\<dots> = p" by (simp add: tk)
  finally show "msg_bytes buf 3 (len buf - 3) = p"
    using n3 by (simp add: msg_bytes_def unat_len_minus3')
qed

lemma msg_bytes_whole: "msg_bytes buf 0 (word_of_int (uint (len buf))) = frame buf"
  by (simp add: msg_bytes_def frame_def)

lemma msg_bytes_whole': "msg_bytes buf 0 (len buf) = frame buf"
  by (simp add: msg_bytes_def frame_def)

lemma dispatched_map:
  "nus_sends tr = map (\<lambda>c. (c, moff, mlen)) cs \<Longrightarrow>
   dispatched buf tr = map (\<lambda>c. (c, msg_bytes buf moff mlen)) cs"
  by (simp add: dispatched_def)

lemma multi_nus_send_unicast:
  assumes "data buf ! 0 = ROUTED_MESSAGE_CHAR"
    and "atoi ([data buf ! 1, data buf ! 2] @ str_tail e) = int k"
    and "k < bt_conn_ctx_count e"
  shows "multi_nus_send e buf =
           send_and_wait e 3 (word_of_int (uint (len buf) - 3)) k ([], 0)"
  using assms by (simp add: multi_nus_send_def Let_def)

lemma multi_nus_send_sentinel:
  assumes "data buf ! 0 = ROUTED_MESSAGE_CHAR"
    and "atoi ([data buf ! 1, data buf ! 2] @ str_tail e) = BROADCAST_INDEX"
    and "bt_conn_ctx_count e \<le> 99"
  shows "multi_nus_send e buf =
           broadcast_loop e 3 (word_of_int (uint (len buf) - 3)) 0 (bt_conn_ctx_count e)
             ([LOG_INF ''Broadcast''], 0)"
  using assms by (simp add: multi_nus_send_def Let_def BROADCAST_INDEX_def)

lemma multi_nus_send_unroutable:
  assumes "data buf ! 0 = ROUTED_MESSAGE_CHAR"
    and "\<not> (0 \<le> atoi ([data buf ! 1, data buf ! 2] @ str_tail e)
           \<and> atoi ([data buf ! 1, data buf ! 2] @ str_tail e) < int (bt_conn_ctx_count e))"
    and "atoi ([data buf ! 1, data buf ! 2] @ str_tail e) \<noteq> BROADCAST_INDEX"
  shows "multi_nus_send e buf =
           broadcast_loop e 0 (word_of_int (uint (len buf))) 0 (bt_conn_ctx_count e)
             ([LOG_INF ''Broadcast''], 0)"
proof -
  define n where "n = atoi ([data buf ! 1, data buf ! 2] @ str_tail e)"
  have a: "\<not> (0 \<le> n \<and> n < int (bt_conn_ctx_count e))"
    unfolding n_def by (rule assms(2))
  have b: "n \<noteq> BROADCAST_INDEX"
    unfolding n_def by (rule assms(3))
  show ?thesis
    unfolding multi_nus_send_def Let_def n_def[symmetric]
    by (simp only: assms(1) a b if_True if_False prod.case simp_thms)
qed

lemma multi_nus_send_plain:
  assumes "data buf ! 0 \<noteq> ROUTED_MESSAGE_CHAR"
  shows "multi_nus_send e buf =
           broadcast_loop e 0 (word_of_int (uint (len buf))) 0 (bt_conn_ctx_count e)
             ([LOG_INF ''Broadcast''], 0)"
  using assms by (simp add: multi_nus_send_def Let_def)

lemma dispatched_broadcast_loop:
  "dispatched buf (fst (broadcast_loop e moff mlen 0 (bt_conn_ctx_count e)
       ([LOG_INF ''Broadcast''], 0))) =
     map (\<lambda>c. (c, msg_bytes buf moff mlen)) (connected_clients e)"
  by (rule dispatched_map) (simp add: nus_sends_broadcast_loop)

lemma connected_clients_two_peers: "connected_clients two_peers = [100, 101]"
  by (simp add: connected_clients_def two_peers_def client_of_def List.map_filter_simps upt_rec)


lemma client_of_tail: "client_of (e\<lparr>str_tail := t\<rparr>) = client_of e"
  by (rule ext) (simp add: client_of_def)

lemma connected_clients_tail:
  "connected_clients (e\<lparr>str_tail := t\<rparr>) = connected_clients e"
  by (simp add: connected_clients_def client_of_tail)

lemma connected_clients_eight_behind: "connected_clients eight_behind = [100, 101]"
  by (simp add: eight_behind_def connected_clients_tail connected_clients_two_peers)


lemma connected_clients_nine_behind: "connected_clients nine_behind = [100, 101]"
  by (simp add: nine_behind_def connected_clients_tail connected_clients_two_peers)


text \<open>
  What \<open>multi_nus_send\<close> does when the index is parsed from the two digits alone, that
  is, when no digit lies behind the two-byte array \<open>str\<close>: a frame \<open>'*' d1 d2 payload\<close>
  whose digits give a peer id \<open>k\<close> below the count is sent as \<open>payload\<close> to the client
  of peer \<open>k\<close> only, and not at all when the lookup of peer \<open>k\<close> finds no client.
\<close>

lemma addressed_frame_undisturbed:
  assumes "wf_buf buf"
    and "frame buf = ROUTED_MESSAGE_CHAR # d1 # d2 # payload"
    and "isdigit d1" and "isdigit d2" and "ends_number (str_tail e)"
    and "int k = 10 * (uint d1 - 48) + (uint d2 - 48)"
    and "k < bt_conn_ctx_count e"
  shows "dispatched buf (fst (multi_nus_send e buf)) =
           (case client_of e k of None \<Rightarrow> [] | Some c \<Rightarrow> [(c, payload)])"
proof -
  note p = frame_prefix3[OF assms(1,2)]
  have "atoi ([data buf ! 1, data buf ! 2] @ str_tail e) = int k"
    using atoi_two_digits[OF assms(3,4,5)] assms(6) by (simp only: p)
  then have "multi_nus_send e buf =
      send_and_wait e 3 (word_of_int (uint (len buf) - 3)) k ([], 0)"
    by (rule multi_nus_send_unicast[OF p(1) _ assms(7)])
  then show ?thesis
    by (simp add: dispatched_def nus_sends_send_and_wait p(4) split: option.splits)
qed

text \<open>
  In terms of the index that \<open>atoi\<close> returns: when it is neither a peer id below the
  count nor 99, the whole frame goes to every connected peer.
\<close>

lemma unroutable_index_as_parsed:
  assumes "wf_buf buf"
    and "frame buf = ROUTED_MESSAGE_CHAR # d1 # d2 # rest"
    and "atoi ([d1, d2] @ str_tail e) = n"
    and "\<not> (0 \<le> n \<and> n < int (bt_conn_ctx_count e))"
    and "n \<noteq> BROADCAST_INDEX"
  shows "dispatched buf (fst (multi_nus_send e buf)) =
           map (\<lambda>cl. (cl, ROUTED_MESSAGE_CHAR # d1 # d2 # rest)) (connected_clients e)"
proof -
  note p = frame_prefix3[OF assms(1,2)]
  have "atoi ([data buf ! 1, data buf ! 2] @ str_tail e) = n"
    using assms(3) by (simp only: p)
  then have "multi_nus_send e buf =
      broadcast_loop e 0 (word_of_int (uint (len buf))) 0 (bt_conn_ctx_count e)
        ([LOG_INF ''Broadcast''], 0)"
    using assms(4,5) by (intro multi_nus_send_unroutable p(1)) simp_all
  then show ?thesis
    using assms(2) by (simp add: dispatched_broadcast_loop msg_bytes_whole')
qed

text \<open>
  Claim C1. The claim asks that a frame \<open>'*' d d payload\<close> with the digits of a connected
  peer goes to that peer only, as \<open>payload\<close>. The array \<open>str\<close> that holds the two digits
  has no terminating NUL (lines 104-107), so \<open>atoi\<close> reads on into the memory behind it.
  With the bytes \<open>'8'\<close> and \<open>0xCF\<close> there, the frame \<open>*01hi\r\<close> is parsed as 18, which
  is no peer of two, and the whole frame, prefix included, goes to both peers; with
  \<open>'1'\<close> there, the frame \<open>*00hi\r\<close> is parsed as 1 and its payload goes to peer 1
  instead of peer 0.
\<close>

theorem C1_digit_behind_str_misroutes:
  "dispatched (mk_buf [42, 48, 49, 104, 105, 13]) (fst (multi_nus_send eight_behind (mk_buf [42, 48, 49, 104, 105, 13])))
     = [(100, [42, 48, 49, 104, 105, 13]), (101, [42, 48, 49, 104, 105, 13])]
   \<and> dispatched (mk_buf [42, 48, 48, 104, 105, 13]) (fst (multi_nus_send one_behind (mk_buf [42, 48, 48, 104, 105, 13])))
     = [(101, [104, 105, 13])]"
proof
  have "data (mk_buf [42, 48, 49, 104, 105, 13]) ! 0 = ROUTED_MESSAGE_CHAR"
    by (simp add: mk_buf_def ROUTED_MESSAGE_CHAR_def)
  moreover have "atoi ([data (mk_buf [42, 48, 49, 104, 105, 13]) ! 1, data (mk_buf [42, 48, 49, 104, 105, 13]) ! 2]
      @ str_tail eight_behind) = 18"
    by (simp add: mk_buf_def eight_behind_def two_peers_def atoi_def isspace_def isdigit_def)
  ultimately have "multi_nus_send eight_behind (mk_buf [42, 48, 49, 104, 105, 13]) =
      broadcast_loop eight_behind 0 (word_of_int (uint (len (mk_buf [42, 48, 49, 104, 105, 13])))) 0
        (bt_conn_ctx_count eight_behind) ([LOG_INF ''Broadcast''], 0)"
    by (intro multi_nus_send_unroutable)
       (simp_all add: eight_behind_def two_peers_def BROADCAST_INDEX_def)
  then show "dispatched (mk_buf [42, 48, 49, 104, 105, 13]) (fst (multi_nus_send eight_behind (mk_buf [42, 48, 49, 104, 105, 13])))
     = [(100, [42, 48, 49, 104, 105, 13]), (101, [42, 48, 49, 104, 105, 13])]"
    by (simp add: dispatched_broadcast_loop msg_bytes_whole' connected_clients_eight_behind)
       (simp add: frame_def mk_buf_def UART_BUF_SIZE_def)
next
  have "data (mk_buf [42, 48, 48, 104, 105, 13]) ! 0 = ROUTED_MESSAGE_CHAR"
    by (simp add: mk_buf_def ROUTED_MESSAGE_CHAR_def)
  moreover have "atoi ([data (mk_buf [42, 48, 48, 104, 105, 13]) ! 1, data (mk_buf [42, 48, 48, 104, 105, 13]) ! 2]
      @ str_tail one_behind) = int 1"
    by (simp add: mk_buf_def one_behind_def two_peers_def atoi_def isspace_def isdigit_def)
  ultimately have "multi_nus_send one_behind (mk_buf [42, 48, 48, 104, 105, 13]) =
      send_and_wait one_behind 3 (word_of_int (uint (len (mk_buf [42, 48, 48, 104, 105, 13])) - 3)) 1 ([], 0)"
    by (intro multi_nus_send_unicast) (simp_all add: one_behind_def two_peers_def)
  then show "dispatched (mk_buf [42, 48, 48, 104, 105, 13]) (fst (multi_nus_send one_behind (mk_buf [42, 48, 48, 104, 105, 13])))
     = [(101, [104, 105, 13])]"
    by (simp add: dispatched_def nus_sends_send_and_wait client_of_def one_behind_def
        two_peers_def msg_bytes_def mk_buf_def UART_BUF_SIZE_def)
qed




text \<open>
  Claim C3. The claim asks that a frame \<open>'*' d d rest\<close> whose two digits are neither a
  connected peer id nor 99 goes to every connected peer whole, prefix included. The
  digits of \<open>*09hi\r\<close> give 9, which is no peer of two and is not 99; with the byte \<open>'9'\<close>
  behind the un-terminated array \<open>str\<close> (lines 104-107) \<open>atoi\<close> reads 099, the code
  takes the sentinel branch, strips the prefix and sends \<open>hi\r\<close> to both peers.
\<close>

theorem C3_digit_behind_str_strips_prefix:
  "dispatched (mk_buf [42, 48, 57, 104, 105, 13]) (fst (multi_nus_send nine_behind (mk_buf [42, 48, 57, 104, 105, 13])))
     = [(100, [104, 105, 13]), (101, [104, 105, 13])]"
proof -
  have "data (mk_buf [42, 48, 57, 104, 105, 13]) ! 0 = ROUTED_MESSAGE_CHAR"
    by (simp add: mk_buf_def ROUTED_MESSAGE_CHAR_def)
  moreover have "atoi ([data (mk_buf [42, 48, 57, 104, 105, 13]) ! 1, data (mk_buf [42, 48, 57, 104, 105, 13]) ! 2]
      @ str_tail nine_behind) = BROADCAST_INDEX"
    by (simp add: mk_buf_def nine_behind_def two_peers_def atoi_def isspace_def isdigit_def
        BROADCAST_INDEX_def)
  ultimately have "multi_nus_send nine_behind (mk_buf [42, 48, 57, 104, 105, 13]) =
      broadcast_loop nine_behind 3 (word_of_int (uint (len (mk_buf [42, 48, 57, 104, 105, 13])) - 3)) 0
        (bt_conn_ctx_count nine_behind) ([LOG_INF ''Broadcast''], 0)"
    by (intro multi_nus_send_sentinel) (simp_all add: nine_behind_def two_peers_def)
  then show ?thesis
    by (simp add: dispatched_broadcast_loop connected_clients_nine_behind)
       (simp add: msg_bytes_def mk_buf_def UART_BUF_SIZE_def)
qed

section \<open>Relaying bytes from a peer: what ble\_data\_received does\<close>

lemma uart_tx_frames_append:
  "uart_tx_frames (xs @ ys) = uart_tx_frames xs @ uart_tx_frames ys"
  by (induction xs rule: uart_tx_frames.induct) simp_all

lemma delayed_submits_append:
  "delayed_submits (xs @ ys) = delayed_submits xs @ delayed_submits ys"
  by (induction xs rule: delayed_submits.induct) simp_all

lemma send_and_wait_quiet:
  "uart_tx_frames (fst (send_and_wait e moff mlen i acc)) = uart_tx_frames (fst acc)"
  "delayed_submits (fst (send_and_wait e moff mlen i acc)) = delayed_submits (fst acc)"
  by (simp_all add: send_and_wait_def uart_tx_frames_append delayed_submits_append
      split: option.splits)

lemma foldl_send_and_wait_quiet:
  "uart_tx_frames (fst (foldl (\<lambda>a j. send_and_wait e moff mlen j a) acc js))
     = uart_tx_frames (fst acc)"
  "delayed_submits (fst (foldl (\<lambda>a j. send_and_wait e moff mlen j a) acc js))
     = delayed_submits (fst acc)"
  by (induction js arbitrary: acc) (simp_all add: send_and_wait_quiet)

lemma multi_nus_send_cases:
  "\<exists>moff mlen. multi_nus_send e buf = send_and_wait e moff mlen (nat (atoi ([data buf ! 1, data buf ! 2] @ str_tail e))) ([], 0)
     \<or> multi_nus_send e buf = broadcast_loop e moff mlen 0 (bt_conn_ctx_count e) ([LOG_INF ''Broadcast''], 0)"
  by (auto simp: multi_nus_send_def Let_def)

lemma multi_nus_send_quiet:
  "uart_tx_frames (fst (multi_nus_send e buf)) = []"
  "delayed_submits (fst (multi_nus_send e buf)) = []"
  using multi_nus_send_cases[of e buf]
  by (auto simp: send_and_wait_quiet broadcast_loop_foldl foldl_send_and_wait_quiet)

lemma chunk_size_bounds:
  assumes "pos < length d"
  shows "0 < chunk_size d pos" "chunk_size d pos \<le> UART_BUF_SIZE - 1"
    "pos + chunk_size d pos \<le> length d"
  using assms by (auto simp: chunk_size_def UART_BUF_SIZE_def)

lemma length_fit: "length (fit bs) = UART_BUF_SIZE"
  by (simp add: fit_def)

lemma frame_fill_tx:
  assumes "pos < length d"
  shows "frame (fill_tx d pos junk) =
           take (chunk_size d pos) (drop pos d)
           @ (if pos + chunk_size d pos = length d \<and> last d = CR then [LF] else [])"
proof -
  let ?n = "chunk_size d pos"
  let ?c = "take ?n (drop pos d)"
  note b = chunk_size_bounds[OF assms]
  have n: "?n \<le> 19" using b(2) by (simp add: UART_BUF_SIZE_def)
  have lc: "length ?c = ?n" using b(3) by simp
  have un: "unat (of_nat ?n :: u16) = ?n"
    using n by (simp add: unat_of_nat)
  have un1: "unat (of_nat ?n + 1 :: u16) = ?n + 1"
  proof -
    have "(of_nat ?n + 1 :: u16) = of_nat (?n + 1)" by simp
    moreover have "unat (of_nat (?n + 1) :: u16) = ?n + 1"
      using n by (subst unat_of_nat) simp
    ultimately show ?thesis by (simp only:)
  qed
  have ld: "d \<noteq> []" using assms by auto
  have lastd: "d ! (length d - 1) = last d" using ld by (simp add: last_conv_nth)
  have rest: "drop ?n (fit (data junk)) \<noteq> []"
    using n by (simp add: length_fit UART_BUF_SIZE_def)
  then obtain r rs where r: "drop ?n (fit (data junk)) = r # rs"
    by (cases "drop ?n (fit (data junk))") auto
  have upd: "(?c @ r # rs)[?n := LF] = ?c @ LF # rs"
    using lc by (simp add: list_update_append)
  show ?thesis
    unfolding fill_tx_def Let_def frame_def
    using lc un un1 lastd r upd by (simp add: list_update_append)
qed

lemma loop_done: "\<not> pos < length d \<Longrightarrow> ble_data_received_loop e d pos s = s"
  by (subst ble_data_received_loop.simps) simp

lemma loop_fail:
  "pos < length d \<Longrightarrow> k_malloc_at e pos = None \<Longrightarrow>
   ble_data_received_loop e d pos s =
     emit [KMalloc None, LOG_WRN ''Not able to allocate UART send data buffer''] s"
  by (subst ble_data_received_loop.simps) simp

lemma loop_ok:
  "pos < length d \<Longrightarrow> k_malloc_at e pos = Some (a, junk) \<Longrightarrow>
   ble_data_received_loop e d pos s =
     ble_data_received_loop e d (pos + chunk_size d pos) (relay_chunk e d pos a junk s)"
  by (subst ble_data_received_loop.simps) simp

lemma assembled_done: "\<not> pos < length d \<Longrightarrow> assembled e d pos = []"
  by (simp add: assembled_def chunks.simps[of d pos])

lemma assembled_fail:
  "pos < length d \<Longrightarrow> k_malloc_at e pos = None \<Longrightarrow> assembled e d pos = []"
  by (simp add: assembled_def chunks.simps[of d pos])

lemma assembled_ok:
  "pos < length d \<Longrightarrow> k_malloc_at e pos = Some (a, junk) \<Longrightarrow>
   assembled e d pos =
     (pos, frame (fill_tx d pos junk)) # assembled e d (pos + chunk_size d pos)"
  by (simp add: assembled_def chunks.simps[of d pos] frame_fill_tx)

lemma trace_emit: "trace (emit cs s) = trace s @ cs"
  by (simp add: emit_def)

lemma fifo_emit: "fifo_uart_tx_data (emit cs s) = fifo_uart_tx_data s"
  by (simp add: emit_def)

lemma relay_chunk_uart_tx:
  "uart_tx_frames (trace (relay_chunk e d pos a junk s)) =
     uart_tx_frames (trace s) @ [frame (fill_tx d pos junk)]"
  by (simp add: relay_chunk_def Let_def trace_emit uart_tx_frames_append multi_nus_send_quiet)

lemma relay_chunk_submits:
  "delayed_submits (trace (relay_chunk e d pos a junk s)) = delayed_submits (trace s)"
  by (simp add: relay_chunk_def Let_def trace_emit delayed_submits_append multi_nus_send_quiet)

lemma relay_chunk_fifo:
  "fifo_uart_tx_data (relay_chunk e d pos a junk s) =
     fifo_uart_tx_data s @ (if uart_tx_ret_at e pos \<noteq> 0 then [a] else [])"
  by (simp add: relay_chunk_def Let_def fifo_emit)

lemma relay_chunk_sends:
  "nus_sends (trace (relay_chunk e d pos a junk s)) =
     nus_sends (trace s)
     @ (if d ! 0 = ROUTED_MESSAGE_CHAR
        then nus_sends (fst (multi_nus_send (nus_env_at e pos) (fill_tx d pos junk))) else [])"
  by (simp add: relay_chunk_def Let_def trace_emit nus_sends_append)

lemma loop_uart_tx:
  "uart_tx_frames (trace (ble_data_received_loop e d pos s)) =
     uart_tx_frames (trace s) @ map snd (assembled e d pos)"
proof (induction e d pos s rule: ble_data_received_loop.induct)
  case (1 e d pos s)
  show ?case
  proof (cases "pos < length d")
    case False
    then show ?thesis by (simp add: loop_done assembled_done)
  next
    case True
    show ?thesis
    proof (cases "k_malloc_at e pos")
      case None
      with True show ?thesis
        by (simp add: loop_fail assembled_fail trace_emit uart_tx_frames_append)
    next
      case (Some x)
      obtain a junk where x: "x = (a, junk)" by (cases x)
      from 1[OF True Some x[symmetric]] True Some x show ?thesis
        by (simp add: loop_ok[of pos d e a junk] assembled_ok[of pos d e a junk]
            relay_chunk_uart_tx)
    qed
  qed
qed

lemma loop_submits:
  "delayed_submits (trace (ble_data_received_loop e d pos s)) = delayed_submits (trace s)"
proof (induction e d pos s rule: ble_data_received_loop.induct)
  case (1 e d pos s)
  show ?case
  proof (cases "pos < length d")
    case False
    then show ?thesis by (simp add: loop_done)
  next
    case True
    show ?thesis
    proof (cases "k_malloc_at e pos")
      case None
      with True show ?thesis
        by (simp add: loop_fail trace_emit delayed_submits_append)
    next
      case (Some x)
      obtain a junk where x: "x = (a, junk)" by (cases x)
      from 1[OF True Some x[symmetric]] True Some x show ?thesis
        by (simp add: loop_ok[of pos d e a junk] relay_chunk_submits)
    qed
  qed
qed

lemma loop_fifo:
  "fifo_uart_tx_data (ble_data_received_loop e d pos s) = fifo_uart_tx_data s @ queued e d pos"
proof (induction e d pos s rule: ble_data_received_loop.induct)
  case (1 e d pos s)
  show ?case
  proof (cases "pos < length d")
    case False
    then show ?thesis by (simp add: loop_done assembled_done queued_def)
  next
    case True
    show ?thesis
    proof (cases "k_malloc_at e pos")
      case None
      with True show ?thesis
        by (simp add: loop_fail assembled_fail fifo_emit queued_def)
    next
      case (Some x)
      obtain a junk where x: "x = (a, junk)" by (cases x)
      from 1[OF True Some x[symmetric]] True Some x show ?thesis
        by (simp add: loop_ok[of pos d e a junk] assembled_ok[of pos d e a junk]
            relay_chunk_fifo queued_def)
    qed
  qed
qed

lemma loop_sends:
  "nus_sends (trace (ble_data_received_loop e d pos s)) =
     nus_sends (trace s) @ (if d ! 0 = ROUTED_MESSAGE_CHAR then routed_sends e d pos else [])"
proof (induction e d pos s rule: ble_data_received_loop.induct)
  case (1 e d pos s)
  show ?case
  proof (cases "pos < length d")
    case False
    then show ?thesis by (simp add: loop_done assembled_done routed_sends_def)
  next
    case True
    show ?thesis
    proof (cases "k_malloc_at e pos")
      case None
      with True show ?thesis
        by (simp add: loop_fail assembled_fail trace_emit nus_sends_append routed_sends_def)
    next
      case (Some x)
      obtain a junk where x: "x = (a, junk)" by (cases x)
      from 1[OF True Some x[symmetric]] True Some x show ?thesis
        by (simp add: loop_ok[of pos d e a junk] assembled_ok[of pos d e a junk]
            relay_chunk_sends routed_sends_def)
    qed
  qed
qed

lemma relayed_eq: "relayed e d s = map snd (assembled e d 0)"
  by (simp add: relayed_def ble_data_received_def loop_uart_tx)

lemma chunks_pos: "(p, bs) \<in> set (chunks d pos) \<Longrightarrow> p < length d"
proof (induction d pos rule: chunks.induct)
  case (1 d pos)
  then show ?case
    by (subst (asm) (2) chunks.simps) (auto split: if_splits)
qed

lemma assembled_all:
  assumes "\<forall>p<length d. k_malloc_at e p \<noteq> None"
  shows "assembled e d pos = chunks d pos"
  unfolding assembled_def
  by (rule takeWhile_eq_all_conv[THEN iffD2]) (use assms chunks_pos in auto)

lemma chunks_concat:
  "pos \<le> length d \<Longrightarrow>
   concat (map snd (chunks d pos)) =
     drop pos d @ (if pos < length d \<and> last d = CR then [LF] else [])"
proof (induction d pos rule: chunks.induct)
  case (1 d pos)
  show ?case
  proof (cases "pos < length d")
    case False
    with 1(2) show ?thesis by (subst chunks.simps) simp
  next
    case True
    note b = chunk_size_bounds[OF True]
    let ?n = "chunk_size d pos"
    have ih: "concat (map snd (chunks d (pos + ?n))) =
        drop (pos + ?n) d @ (if pos + ?n < length d \<and> last d = CR then [LF] else [])"
      using 1(1)[OF True] b(3) by simp
    have split: "drop pos d = take ?n (drop pos d) @ drop (pos + ?n) d"
      by (metis add.commute append_take_drop_id drop_drop)
    show ?thesis
    proof (cases "pos + ?n = length d")
      case True
      then show ?thesis
        using \<open>pos < length d\<close> ih by (simp add: chunks.simps[of d pos])
    next
      case False
      then have "pos + ?n < length d" using b(3) by simp
      then show ?thesis
        using \<open>pos < length d\<close> ih False
        by (subst chunks.simps) (simp add: split[symmetric])
    qed
  qed
qed

lemma chunks_length:
  "(p, bs) \<in> set (chunks d pos) \<Longrightarrow> length bs \<le> UART_BUF_SIZE"
proof (induction d pos rule: chunks.induct)
  case (1 d pos)
  show ?case
  proof (cases "pos < length d")
    case False
    with 1(2) show ?thesis by (subst (asm) chunks.simps) simp
  next
    case True
    note b = chunk_size_bounds[OF True]
    from 1(2) True
    have "bs = take (chunk_size d pos) (drop pos d)
             @ (if pos + chunk_size d pos = length d \<and> last d = CR then [LF] else [])
          \<or> (p, bs) \<in> set (chunks d (pos + chunk_size d pos))"
      by (subst (asm) chunks.simps) auto
    then show ?thesis
    proof
      assume "bs = take (chunk_size d pos) (drop pos d)
             @ (if pos + chunk_size d pos = length d \<and> last d = CR then [LF] else [])"
      then show ?thesis using b by (auto simp: UART_BUF_SIZE_def)
    next
      assume "(p, bs) \<in> set (chunks d (pos + chunk_size d pos))"
      then show ?thesis using 1(1)[OF True] by simp
    qed
  qed
qed

lemma chunks_last:
  "pos < length d \<Longrightarrow> last d = CR \<Longrightarrow>
   \<exists>c. last (map snd (chunks d pos)) = c @ [LF] \<and> c \<noteq> [] \<and> last c = CR
        \<and> length c \<le> UART_BUF_SIZE - 1"
proof (induction d pos rule: chunks.induct)
  case (1 d pos)
  note b = chunk_size_bounds[OF 1(2)]
  let ?n = "chunk_size d pos"
  show ?case
  proof (cases "pos + ?n = length d")
    case True
    have d0: "d \<noteq> []" using 1(2) by auto
    have c: "take ?n (drop pos d) = drop pos d" using True by simp
    have ne: "drop pos d \<noteq> []" using 1(2) by simp
    have "last (drop pos d) = last d" using 1(2) by (simp add: last_drop)
    moreover have "length (drop pos d) \<le> UART_BUF_SIZE - 1" using True b(2) by simp
    moreover have "chunks d (pos + ?n) = []" using True by (simp add: chunks.simps[of d "length d"])
    ultimately show ?thesis
      using 1(2,3) True ne c by (subst chunks.simps) simp
  next
    case False
    then have lt: "pos + ?n < length d" using b(3) by simp
    then have "chunks d (pos + ?n) \<noteq> []" by (subst chunks.simps) simp
    then show ?thesis
      using 1(1)[OF 1(2) lt 1(3)] 1(2) by (subst chunks.simps) simp
  qed
qed

lemma chunks_nonempty: "pos < length d \<Longrightarrow> chunks d pos \<noteq> []"
  by (subst chunks.simps) simp

lemma chunks_short:
  "0 < length d \<Longrightarrow> length d \<le> 19 \<Longrightarrow>
   chunks d 0 = [(0, d @ (if last d = CR then [LF] else []))]"
  by (subst chunks.simps, subst chunks.simps) (simp add: chunk_size_def UART_BUF_SIZE_def)

lemma assembled_short:
  "0 < length d \<Longrightarrow> length d \<le> 19 \<Longrightarrow> k_malloc_at e 0 \<noteq> None \<Longrightarrow>
   assembled e d 0 = [(0, d @ (if last d = CR then [LF] else []))]"
  by (simp add: assembled_def chunks_short)

lemma assembled_star_message:
  "assembled rx_two_peers star_message 0 =
     [(0, [42, 48, 49, 104, 104, 104, 104, 104, 104, 104, 104, 104, 104, 104, 104, 104, 104, 104, 104]), (19, [104, 104])]"
  unfolding assembled_def
  by (subst chunks.simps, subst chunks.simps, subst chunks.simps)
     (simp add: star_message_def chunk_size_def UART_BUF_SIZE_def CR_def rx_two_peers_def)

lemma uart_work_handler_fail:
  "k_malloc_ret e = None \<Longrightarrow> uart_work_handler e s = emit rx_retry s"
  by (simp add: uart_work_handler_def rx_retry_def)

lemma uart_work_handler_ok:
  "k_malloc_ret e = Some (a, junk) \<Longrightarrow>
   uart_work_handler e s =
     emit [KMalloc (Some a), UartRxEnable a UART_BUF_SIZE UART_RX_TIMEOUT] (new_rx_buf a junk s)"
  by (simp add: uart_work_handler_def)

lemma trace_new_rx_buf: "trace (new_rx_buf a junk s) = trace s"
  by (simp add: new_rx_buf_def)

lemma retries_fail:
  "\<forall>e \<in> set es. k_malloc_ret e = None \<Longrightarrow>
   trace (foldl (\<lambda>s e. uart_work_handler e s) s es) =
     trace s @ concat (replicate (length es) rx_retry)"
proof (induction es arbitrary: s)
  case Nil
  show ?case by simp
next
  case (Cons e es)
  then show ?case
    by (simp add: uart_work_handler_fail trace_emit)
qed

text \<open>
  Claim C4, amended. \<open>ble_data_received\<close> relays every assembled chunk to the serial
  side, and it dispatches to peers exactly when the received data begin with \<open>'*'\<close>:
  each assembled chunk is then passed to \<open>multi_nus_send\<close>. Data that do not begin with
  \<open>'*'\<close> are never dispatched to a peer.
\<close>

theorem C4_peer_bytes_are_routed_when_marked:
  "relayed e d s = map snd (assembled e d 0)
   \<and> nus_sends (trace (ble_data_received e d s)) =
       nus_sends (trace s)
       @ (if d \<noteq> [] \<and> d ! 0 = ROUTED_MESSAGE_CHAR then routed_sends e d 0 else [])"
proof -
  have "routed_sends e [] 0 = []"
    by (simp add: routed_sends_def assembled_done)
  then show ?thesis
    by (cases "d = []") (auto simp: relayed_eq ble_data_received_def loop_sends)
qed

theorem C4_witness:
  "relayed rx_two_peers [104, 105] bridge_init = [[104, 105]]
   \<and> nus_sends (trace (ble_data_received rx_two_peers [104, 105] bridge_init)) = []"
  using C4_peer_bytes_are_routed_when_marked[of rx_two_peers "[104, 105]" bridge_init]
  by (simp add: assembled_short ROUTED_MESSAGE_CHAR_def CR_def rx_two_peers_def bridge_init_def)

text \<open>The claim as stated fails: five bytes \<open>*01hi\<close> from a peer are sent on to peer 1.\<close>

theorem C4_counterexample:
  "nus_sends (trace (ble_data_received rx_two_peers [42, 48, 49, 104, 105] bridge_init))
     = [(101, 3, 2)]"
  by (simp add: ble_data_received_def loop_sends routed_sends_def assembled_short
      rx_two_peers_def bridge_init_def ROUTED_MESSAGE_CHAR_def CR_def
      fill_tx_def chunk_size_def UART_BUF_SIZE_def fit_def
      multi_nus_send_def Let_def atoi_def isspace_def isdigit_def two_peers_def
      send_and_wait_def)

text \<open>
  Claim C6. When the received bytes end in a carriage return and the buffers can be
  allocated, the last frame handed to the serial side is the copied data, which end in
  the carriage return and are at most \<open>UART_BUF_SIZE - 1\<close> bytes, followed by a line
  feed; no frame is longer than \<open>UART_BUF_SIZE\<close>, and the frames together are the
  received bytes and the line feed.
\<close>

theorem C6_line_feed_after_carriage_return:
  assumes "d \<noteq> []" and "last d = CR" and "\<forall>p<length d. k_malloc_at e p \<noteq> None"
  shows "relayed e d s \<noteq> []
       \<and> (\<exists>c. last (relayed e d s) = c @ [LF] \<and> c \<noteq> [] \<and> last c = CR
                \<and> length c \<le> UART_BUF_SIZE - 1)
       \<and> (\<forall>f \<in> set (relayed e d s). length f \<le> UART_BUF_SIZE)
       \<and> concat (relayed e d s) = d @ [LF]"
proof -
  have pos: "0 < length d" using assms(1) by simp
  have r: "relayed e d s = map snd (chunks d 0)"
    by (simp add: relayed_eq assembled_all[OF assms(3)])
  have "relayed e d s \<noteq> []"
    using chunks_nonempty[OF pos] by (simp add: r)
  moreover have "\<exists>c. last (relayed e d s) = c @ [LF] \<and> c \<noteq> [] \<and> last c = CR
                \<and> length c \<le> UART_BUF_SIZE - 1"
    unfolding r by (rule chunks_last[OF pos assms(2)])
  moreover have "\<forall>f \<in> set (relayed e d s). length f \<le> UART_BUF_SIZE"
    unfolding r using chunks_length by fastforce
  moreover have "concat (relayed e d s) = d @ [LF]"
    unfolding r using chunks_concat[of 0 d] pos assms(2) by simp
  ultimately show ?thesis by blast
qed

theorem C6_witness:
  "last [104, 105, 13] = CR
   \<and> relayed rx_two_peers [104, 105, 13] bridge_init \<noteq> []
   \<and> (\<exists>c. last (relayed rx_two_peers [104, 105, 13] bridge_init) = c @ [LF] \<and> c \<noteq> []
            \<and> last c = CR \<and> length c \<le> UART_BUF_SIZE - 1)
   \<and> concat (relayed rx_two_peers [104, 105, 13] bridge_init) = [104, 105, 13] @ [LF]"
  using C6_line_feed_after_carriage_return[of "[104, 105, 13]" rx_two_peers bridge_init]
  by (simp add: CR_def rx_two_peers_def)

text \<open>
  Claim C9, amended. On the serial receive path a failed allocation is logged and
  retried: \<open>UART_RX_DISABLED\<close> and every run of \<open>uart_work_handler\<close> that finds no
  memory submit the delayed work with \<open>UART_WAIT_FOR_BUF_DELAY\<close>, and the first run
  that finds memory enables reception again. \<open>ble_data_received\<close> never submits the
  delayed work: it relays the chunks assembled before the failed allocation and
  returns, so the bytes behind them are dropped.
\<close>

theorem C9_retry_on_the_serial_side_only:
  assumes "k_malloc_ret e0 = None" and "\<forall>e \<in> set es. k_malloc_ret e = None"
    and "k_malloc_ret e1 = Some (a, junk)"
  shows "uart_cb e0 UART_RX_DISABLED s = Some (emit rx_retry s)
       \<and> trace (foldl (\<lambda>s e. uart_work_handler e s) (emit rx_retry s) (es @ [e1])) =
           trace s @ concat (replicate (Suc (length es)) rx_retry)
           @ [KMalloc (Some a), UartRxEnable a UART_BUF_SIZE UART_RX_TIMEOUT]
       \<and> relayed e' d s' = map snd (assembled e' d 0)
       \<and> delayed_submits (trace (ble_data_received e' d s')) = delayed_submits (trace s')"
proof -
  have "uart_cb e0 UART_RX_DISABLED s = Some (emit rx_retry s)"
    using assms(1) by (simp add: rx_retry_def)
  moreover have "trace (foldl (\<lambda>s e. uart_work_handler e s) (emit rx_retry s) (es @ [e1])) =
           trace s @ concat (replicate (Suc (length es)) rx_retry)
           @ [KMalloc (Some a), UartRxEnable a UART_BUF_SIZE UART_RX_TIMEOUT]"
    using retries_fail[OF assms(2), of "emit rx_retry s"]
    by (simp add: uart_work_handler_ok[OF assms(3)] trace_emit trace_new_rx_buf)
  ultimately show ?thesis
    by (simp add: relayed_eq ble_data_received_def loop_submits)
qed

theorem C9_witness:
  "uart_cb no_memory UART_RX_DISABLED bridge_init = Some (emit rx_retry bridge_init)
   \<and> trace (foldl (\<lambda>s e. uart_work_handler e s) (emit rx_retry bridge_init)
        ([no_memory, no_memory] @ [memory_at 7])) =
       rx_retry @ rx_retry @ rx_retry @ [KMalloc (Some 7), UartRxEnable 7 20 50]
   \<and> relayed rx_no_memory [104, 105, 13] bridge_init = []"
  using C9_retry_on_the_serial_side_only[of no_memory "[no_memory, no_memory]" "memory_at 7" 7
      "\<lparr>data = [], len = 0\<rparr>" bridge_init rx_no_memory "[104, 105, 13]" bridge_init]
  by (simp add: no_memory_def memory_at_def assembled_fail rx_no_memory_def
      UART_BUF_SIZE_def UART_RX_TIMEOUT_def)
     (simp add: bridge_init_def)

text \<open>The claim as stated fails: with no memory, \<open>ble_data_received\<close> logs and returns;
  it schedules no retry and relays nothing.\<close>

theorem C9_counterexample:
  "ble_data_received rx_no_memory [104, 105, 13] bridge_init =
     emit [KMalloc None, LOG_WRN ''Not able to allocate UART send data buffer''] bridge_init
   \<and> delayed_submits (trace (ble_data_received rx_no_memory [104, 105, 13] bridge_init)) = []
   \<and> relayed rx_no_memory [104, 105, 13] bridge_init = []"
  by (simp add: ble_data_received_def loop_fail rx_no_memory_def rx_two_peers_def relayed_def
      trace_emit bridge_init_def)

text \<open>
  Claim C10. Every chunk that \<open>ble_data_received\<close> assembles is handed to \<open>uart_tx\<close>
  with exactly its bytes, and the buffer of every chunk for which \<open>uart_tx\<close> fails is put
  on \<open>fifo_uart_tx_data\<close>. This holds for all received data, so also for data that begin
  with \<open>'*'\<close> and are passed to \<open>multi_nus_send\<close> as well: routing suppresses nothing.
  The chunks assembled are those up to the first failed allocation.
\<close>

theorem C10_every_chunk_reaches_the_serial_side:
  "relayed e d s = map snd (assembled e d 0)
   \<and> fifo_uart_tx_data (ble_data_received e d s) = fifo_uart_tx_data s @ queued e d 0"
  by (simp add: relayed_eq ble_data_received_def loop_fifo)

theorem C10_witness:
  "relayed rx_two_peers star_message bridge_init =
     [[42, 48, 49, 104, 104, 104, 104, 104, 104, 104, 104, 104, 104, 104, 104, 104, 104, 104, 104], [104, 104]]
   \<and> fifo_uart_tx_data (ble_data_received rx_two_peers star_message bridge_init) = [19]"
  using C10_every_chunk_reaches_the_serial_side[of rx_two_peers star_message bridge_init]
  by (simp add: assembled_star_message queued_def)
     (simp add: rx_two_peers_def bridge_init_def)

section \<open>Aborted transmissions: the UART\_TX\_ABORTED branch of uart\_cb\<close>

lemma uart_tx_calls_append:
  "uart_tx_calls (xs @ ys) = uart_tx_calls xs @ uart_tx_calls ys"
  by (induction xs rule: uart_tx_calls.induct) simp_all

lemma unat_ucast_len: "unat (ucast (l :: u16) :: size_t) = unat l"
proof -
  have "unat l < 2 ^ 32"
    using unsigned_less[of l, where 'a = nat] by (simp add: order_less_trans[of _ "2 ^ 16"])
  then show ?thesis
    by (simp add: unsigned_ucast_eq take_bit_nat_eq_self)
qed

lemma tx_aborted_step:
  assumes h: "heap s a = Some buf" and wf: "wf_buf buf"
    and ab: "aborted_buf s = Some (BytePtr a 0) \<or> (aborted_buf s = None \<and> p = Some (BytePtr a 0))"
    and le: "unat (aborted_len s) + unat n \<le> unat (len buf)"
  shows "uart_cb e (UART_TX_ABORTED p n) s =
           Some (emit [UartTx (BytePtr a (unat (aborted_len s) + unat n))
                         (of_nat (length (frame buf) - (unat (aborted_len s) + unat n)))
                         (drop (unat (aborted_len s) + unat n) (frame buf))]
                   (s\<lparr>aborted_buf := Some (BytePtr a 0), aborted_len := aborted_len s + n\<rparr>))"
proof -
  let ?al = "aborted_len s + n"
  let ?k = "unat (aborted_len s) + unat n"
  have L: "unat (len buf) \<le> 20" "length (data buf) = 20"
    using wf by (simp_all add: wf_buf_def UART_BUF_SIZE_def)
  have lf: "length (frame buf) = unat (len buf)"
    using L by (simp add: frame_def)
  have k: "unat ?al = ?k"
    using le L by (intro unat_add_lem[THEN iffD1]) simp
  have ule: "?al \<le> ucast (len buf)"
    using le k by (simp add: word_le_nat_alt unat_ucast_len)
  have sub: "unat (ucast (len buf) - ?al) = unat (len buf) - ?k"
    using unat_sub[OF ule] k by (simp add: unat_ucast_len)
  have w: "(ucast (len buf) - ?al :: size_t) = of_nat (length (frame buf) - ?k)"
  proof -
    have "unat (of_nat (unat (len buf) - ?k) :: size_t) = unat (len buf) - ?k"
      using L by (simp add: unat_of_nat)
    then show ?thesis
      using sub by (simp add: word_unat_eq_iff lf)
  qed
  have bytes: "take (unat (ucast (len buf) - ?al)) (drop ?k (data buf)) =
                 drop ?k (frame buf)"
    by (simp add: sub frame_def drop_take)
  have abv: "(case aborted_buf s of None \<Rightarrow> p | Some q \<Rightarrow> Some q) = Some (BytePtr a 0)"
    using ab by auto
  show ?thesis
    by (simp only: uart_cb.simps Let_def abv k)
       (simp add: container_of_def h w bytes[unfolded w])
qed

lemma transmitted_resumed:
  "transmitted (drop k bs # map (\<lambda>j. drop j bs) (running_sums k ns)) ns = drop k bs"
proof (induction ns arbitrary: k)
  case Nil
  show ?case by simp
next
  case (Cons n ns)
  have "take n (drop k bs) @ drop (k + n) bs = drop k bs"
    by (metis add.commute append_take_drop_id drop_drop)
  then show ?case by (simp add: Cons.IH)
qed

lemma abort_run:
  assumes h: "heap s a = Some buf" and wf: "wf_buf buf"
    and ab: "aborted_buf s = Some (BytePtr a 0) \<or> (aborted_buf s = None \<and> k0 = 0)"
    and le: "unat (aborted_len s) + sum_list (map unat ns) \<le> unat (len buf)"
  shows "\<exists>s'. uart_cb_run e (abort_events a k0 ns) s = Some s'
           \<and> heap s' = heap s \<and> fifo_uart_tx_data s' = fifo_uart_tx_data s
           \<and> (ns \<noteq> [] \<longrightarrow> aborted_buf s' = Some (BytePtr a 0))
           \<and> uart_tx_calls (trace s') =
               uart_tx_calls (trace s)
               @ map (resumed a (frame buf)) (running_sums (unat (aborted_len s)) (map unat ns))"
  using h ab le
proof (induction ns arbitrary: s k0)
  case Nil
  show ?case by simp
next
  case (Cons n ns)
  let ?k = "unat (aborted_len s) + unat n"
  let ?s1 = "emit [UartTx (BytePtr a ?k) (of_nat (length (frame buf) - ?k)) (drop ?k (frame buf))]
               (s\<lparr>aborted_buf := Some (BytePtr a 0), aborted_len := aborted_len s + n\<rparr>)"
  have le1: "?k \<le> unat (len buf)" using Cons.prems(3) by simp
  have L: "unat (len buf) \<le> 20"
    using wf by (simp add: wf_buf_def UART_BUF_SIZE_def)
  have k: "unat (aborted_len s + n) = ?k"
    using le1 L by (intro unat_add_lem[THEN iffD1]) simp
  have p: "aborted_buf s = Some (BytePtr a 0)
           \<or> (aborted_buf s = None \<and> Some (BytePtr a k0) = Some (BytePtr a 0))"
    using Cons.prems(2) by auto
  have step: "uart_cb e (UART_TX_ABORTED (Some (BytePtr a k0)) n) s = Some ?s1"
    by (rule tx_aborted_step[OF Cons.prems(1) wf p le1])
  have h1: "heap ?s1 a = Some buf" using Cons.prems(1) by (simp add: emit_def)
  have ab1: "aborted_buf ?s1 = Some (BytePtr a 0) \<or> (aborted_buf ?s1 = None \<and> k0 + unat n = 0)"
    by (simp add: emit_def)
  have le2: "unat (aborted_len ?s1) + sum_list (map unat ns) \<le> unat (len buf)"
    using Cons.prems(3) k by (simp add: emit_def)
  from Cons.IH[OF h1 ab1 le2] obtain s' where
    r: "uart_cb_run e (abort_events a (k0 + unat n) ns) ?s1 = Some s'"
       "heap s' = heap ?s1" "fifo_uart_tx_data s' = fifo_uart_tx_data ?s1"
       "ns \<noteq> [] \<longrightarrow> aborted_buf s' = Some (BytePtr a 0)"
       "uart_tx_calls (trace s') = uart_tx_calls (trace ?s1)
          @ map (resumed a (frame buf)) (running_sums (unat (aborted_len ?s1)) (map unat ns))"
    by blast
  have nil: "ns = [] \<Longrightarrow> s' = ?s1" using r(1) by simp
  have "uart_cb_run e (abort_events a k0 (n # ns)) s = Some s'"
    using step r(1) by simp
  moreover have "heap s' = heap s" using r(2) by (simp add: emit_def)
  moreover have "fifo_uart_tx_data s' = fifo_uart_tx_data s" using r(3) by (simp add: emit_def)
  moreover have "aborted_buf s' = Some (BytePtr a 0)"
    using r(4) nil by (cases "ns = []") (simp_all add: emit_def)
  moreover have "uart_tx_calls (trace s') =
      uart_tx_calls (trace s)
      @ map (resumed a (frame buf)) (running_sums (unat (aborted_len s)) (map unat (n # ns)))"
    using r(5) k by (simp add: emit_def uart_tx_calls_append resumed_def)
  ultimately show ?case by blast
qed

lemma tx_done_after_abort:
  assumes "aborted_buf s = Some (BytePtr a 0)" and "fifo_uart_tx_data s = []" and "m \<noteq> 0"
  shows "uart_cb e (UART_TX_DONE (Some q) m) s =
           Some (emit [KFree a] (s\<lparr>aborted_buf := None, aborted_len := 0,
                                     heap := (heap s)(a := None)\<rparr>))"
  using assms by (simp add: Let_def container_of_def emit_def)

text \<open>
  Claim C7. A frame is being transmitted from the start of its buffer and no abort is
  pending. For every sequence of aborts, each reporting the bytes sent since the last
  request and the pointer of that request, \<open>uart_cb\<close> answers each abort with one
  \<open>uart_tx\<close> of the unsent rest: the pointer is \<open>&buf->data[aborted_len]\<close>, with
  \<open>aborted_len\<close> the sum of the reported lengths, and the length is
  \<open>buf->len - aborted_len\<close>. The parts that went out before each abort, followed by
  the last request, are the frame. When that last request is done, the buffer of the
  frame is freed and the abort state is cleared.
\<close>

theorem C7_aborted_transmission_resumes:
  assumes "heap s a = Some buf" and "wf_buf buf"
    and "aborted_buf s = None" and "aborted_len s = 0"
    and "sum_list (map unat ns) \<le> unat (len buf)"
  shows "\<exists>s'. uart_cb_run e (abort_events a 0 ns) s = Some s'
           \<and> uart_tx_calls (trace s') =
               uart_tx_calls (trace s)
               @ map (resumed a (frame buf)) (running_sums 0 (map unat ns))
           \<and> transmitted
                 (frame buf # map (\<lambda>(p, n, bs). bs)
                    (drop (length (uart_tx_calls (trace s))) (uart_tx_calls (trace s'))))
                 (map unat ns) = frame buf
           \<and> (ns \<noteq> [] \<and> fifo_uart_tx_data s = [] \<and> m \<noteq> 0 \<longrightarrow>
                uart_cb e (UART_TX_DONE (Some q) m) s' =
                  Some (emit [KFree a] (s'\<lparr>aborted_buf := None, aborted_len := 0,
                                            heap := (heap s')(a := None)\<rparr>)))"
proof -
  have ab: "aborted_buf s = Some (BytePtr a 0) \<or> (aborted_buf s = None \<and> (0::nat) = 0)"
    using assms(3) by simp
  have le: "unat (aborted_len s) + sum_list (map unat ns) \<le> unat (len buf)"
    using assms(4,5) by simp
  from abort_run[OF assms(1,2) ab le, of e] obtain s' where
    r: "uart_cb_run e (abort_events a 0 ns) s = Some s'"
       "heap s' = heap s" "fifo_uart_tx_data s' = fifo_uart_tx_data s"
       "ns \<noteq> [] \<longrightarrow> aborted_buf s' = Some (BytePtr a 0)"
       "uart_tx_calls (trace s') = uart_tx_calls (trace s)
          @ map (resumed a (frame buf)) (running_sums (unat (aborted_len s)) (map unat ns))"
    by blast
  have calls: "uart_tx_calls (trace s') =
      uart_tx_calls (trace s) @ map (resumed a (frame buf)) (running_sums 0 (map unat ns))"
    using r(5) assms(4) by simp
  have bytes: "map (\<lambda>(p, n, bs). bs)
       (drop (length (uart_tx_calls (trace s))) (uart_tx_calls (trace s'))) =
     map (\<lambda>j. drop j (frame buf)) (running_sums 0 (map unat ns))"
    by (simp add: calls resumed_def comp_def)
  have tr: "transmitted
       (frame buf # map (\<lambda>(p, n, bs). bs)
          (drop (length (uart_tx_calls (trace s))) (uart_tx_calls (trace s'))))
       (map unat ns) = frame buf"
    using transmitted_resumed[of 0 "frame buf" "map unat ns"] by (simp only: bytes) simp
  have fin: "ns \<noteq> [] \<and> fifo_uart_tx_data s = [] \<and> m \<noteq> 0 \<longrightarrow>
      uart_cb e (UART_TX_DONE (Some q) m) s' =
        Some (emit [KFree a] (s'\<lparr>aborted_buf := None, aborted_len := 0,
                                  heap := (heap s')(a := None)\<rparr>))"
  proof (intro impI, elim conjE)
    assume "ns \<noteq> []" "fifo_uart_tx_data s = []" "m \<noteq> 0"
    then show "uart_cb e (UART_TX_DONE (Some q) m) s' =
        Some (emit [KFree a] (s'\<lparr>aborted_buf := None, aborted_len := 0,
                                  heap := (heap s')(a := None)\<rparr>))"
      using r(3,4) by (intro tx_done_after_abort) simp_all
  qed
  show ?thesis
    using r(1) calls tr fin by blast
qed

theorem C7_witness:
  "\<exists>s'. uart_cb_run no_memory (abort_events 5 0 [1, 2]) (holding 5 (mk_buf [104, 105, 13, 10]))
           = Some s'
        \<and> uart_tx_calls (trace s') =
            [(BytePtr 5 1, 3, [105, 13, 10]), (BytePtr 5 3, 1, [10])]
        \<and> transmitted [[104, 105, 13, 10], [105, 13, 10], [10]] [1, 2] = [104, 105, 13, 10]"
proof -
  have f: "frame (mk_buf [104, 105, 13, 10]) = [104, 105, 13, 10]"
    by (simp add: frame_def mk_buf_def UART_BUF_SIZE_def)
  have w: "wf_buf (mk_buf [104, 105, 13, 10])"
    by (simp add: wf_buf_def mk_buf_def UART_BUF_SIZE_def)
  from C7_aborted_transmission_resumes[of "holding 5 (mk_buf [104, 105, 13, 10])" 5
      "mk_buf [104, 105, 13, 10]" "[1, 2]" no_memory 1 "BytePtr 5 3", OF _ w]
  obtain s' where
    "uart_cb_run no_memory (abort_events 5 0 [1, 2]) (holding 5 (mk_buf [104, 105, 13, 10]))
       = Some s'"
    "uart_tx_calls (trace s') =
       uart_tx_calls (trace (holding 5 (mk_buf [104, 105, 13, 10])))
       @ map (resumed 5 (frame (mk_buf [104, 105, 13, 10]))) (running_sums 0 (map unat [1, 2 :: size_t]))"
    by (auto simp: holding_def bridge_init_def mk_buf_def)
  then show ?thesis
    by (intro exI[of _ s']) (simp add: f resumed_def holding_def bridge_init_def)
qed

section \<open>A full registry: the connected handler\<close>

text \<open>
  Claim C5. The claim asks that \<open>connected\<close> does not go on with a null context when
  \<open>bt_conn_ctx_alloc\<close> fails. The handler logs the failure and has no \<open>return\<close> after
  it (lines 555-558): with a full registry it calls \<open>memset\<close> and \<open>bt_nus_client_init\<close>
  on the null pointer, then releases it.
\<close>

theorem C5_connected_goes_on_with_null_context:
  "trace (connected registry_full 7 0 bridge_init) =
     [LOG_INF ''Connected'', BtConnCtxAlloc 7 None,
      LOG_WRN ''There is no free memory to allocate the connection context'',
      Memset None, BtNusClientInit None, BtConnCtxRelease None,
      LOG_ERR ''NUS Client initialization failed'', BtScanStop,
      LOG_ERR ''Stop LE scan failed'']"
  by (simp add: connected_def registry_full_def bridge_init_def emit_def gatt_discover_def
      EALREADY_def)

lemma connected_null_context:
  "bt_conn_ctx_alloc_ret e = None \<Longrightarrow>
   \<exists>pre post. trace (connected e conn 0 s) =
     trace s @ pre @ [Memset None, BtNusClientInit None] @ post"
  by (simp add: connected_def emit_def)
     (metis append.assoc append_Cons append_Nil)

section \<open>The completion semaphore and the sends in flight\<close>

lemma upt_two_peers: "[0..<bt_conn_ctx_count two_peers] = [0, Suc 0]"
  by (simp add: two_peers_def upt_rec)

lemma client_of_two_peers:
  "client_of two_peers 0 = Some 100" "client_of two_peers (Suc 0) = Some 101"
  by (simp_all add: client_of_def two_peers_def)

lemma discovery_complete_two_peers:
  "discovery_complete two_peers 0 100 =
     [LOG_INF ''Service discovery completed'', BtGattDmDataPrint, BtNusHandlesAssign 100,
      BtNusSubscribeReceive 100, BtGattDmDataRelease, BtScanStart, LOG_INF ''Scanning started'',
      BtNusClientSendMsg 100 [48, 0, 13] 0, LOG_INF ''Sent to server'']"
  "discovery_complete two_peers 0 101 =
     [LOG_INF ''Service discovery completed'', BtGattDmDataPrint, BtNusHandlesAssign 101,
      BtNusSubscribeReceive 101, BtGattDmDataRelease, BtScanStart, LOG_INF ''Scanning started'',
      BtNusClientSendMsg 101 [49, 0, 13] 0, LOG_INF ''Sent to server'']"
  by (simp_all add: discovery_complete_def Let_def upt_two_peers client_of_two_peers
      decimal.simps CR_def)
     (simp_all add: two_peers_def)

lemma broadcast_two_peers:
  "fst (multi_nus_send two_peers (mk_buf [104, 105, 13])) =
     [LOG_INF ''Broadcast'',
      BtNusClientSend 100 0 3 0, LOG_INF ''Sent to server'', BtConnCtxRelease (Some 100),
      KSemTake 150 0,
      BtNusClientSend 101 0 3 0, LOG_INF ''Sent to server'', BtConnCtxRelease (Some 101),
      KSemTake 150 0]"
proof -
  have "data (mk_buf [104, 105, 13]) ! 0 \<noteq> ROUTED_MESSAGE_CHAR"
    by (simp add: mk_buf_def ROUTED_MESSAGE_CHAR_def)
  then show ?thesis
    by (simp add: multi_nus_send_plain broadcast_loop_foldl upt_two_peers send_and_wait_def
        NUS_WRITE_TIMEOUT_def)
       (simp add: two_peers_def mk_buf_def NUS_WRITE_TIMEOUT_def)
qed

text \<open>
  Claim C8. The claim asks that the send to the next peer is issued only after the
  previous send has completed or timed out. \<open>discovery_complete\<close> sends without taking
  the semaphore, so the completion of its write leaves a token behind. In the next
  broadcast the \<open>k_sem_take\<close> after the send to the first peer returns 0 at once on
  that token, and the send to the second peer is issued while the first is still in
  flight: two sends are outstanding.
\<close>

theorem C8_second_send_while_first_is_outstanding:
  "map_option last (link_run stale_token_schedule nus_write_sem_init) =
     Some \<lparr>sem_count = 0, in_flight = [100, 101]\<rparr>"
  by (simp add: stale_token_schedule_def discovery_complete_two_peers broadcast_two_peers
      nus_write_sem_init_def ble_data_sent_def k_sem_give_def)

text \<open>What does hold in every call of \<open>multi_nus_send\<close>: a \<open>k_sem_take\<close> stands between
  any two sends, and after the last one.\<close>

lemma gated_append: "gated p xs \<Longrightarrow> gated False ys \<Longrightarrow> gated p (xs @ ys)"
  by (induction p xs rule: gated.induct) simp_all

lemma gated_send_and_wait:
  "gated False (fst acc) \<Longrightarrow> gated False (fst (send_and_wait e moff mlen i acc))"
  by (auto simp: send_and_wait_def intro!: gated_append split: option.splits)

lemma gated_foldl:
  "gated False (fst acc) \<Longrightarrow>
   gated False (fst (foldl (\<lambda>a j. send_and_wait e moff mlen j a) acc js))"
  by (induction js arbitrary: acc) (simp_all add: gated_send_and_wait)

lemma multi_nus_send_gated: "gated False (fst (multi_nus_send e buf))"
  using multi_nus_send_cases[of e buf]
  by (auto simp: broadcast_loop_foldl intro!: gated_foldl gated_send_and_wait)

end
